theory Spec2Isabelle
  imports Complex_Main
begin

section \<open>Python values shared by both modules\<close>

text \<open>
  The exceptions the modelled code can raise (\<open>ReadError\<close> stands for whatever
  \<open>util.read_img\<close> raises on an unreadable file). \<open>RecursionError\<close> is what CPython raises
  when the interpreter's stack of nested calls is exhausted; the recursive tree builder is
  modelled with the remaining stack depth as an explicit argument.
\<close>

datatype py_error =
    RecursionError
  | ZeroDivisionError
  | IndexError
  | AssertionError
  | AttributeError
  | NameError
  | ReadError

text \<open>
  A loop whose body can raise: the state is threaded through the elements in order, and
  the first exception ends the loop.
\<close>

fun fold_err :: "('a \<Rightarrow> 's \<Rightarrow> py_error + 's) \<Rightarrow> 'a list \<Rightarrow> 's \<Rightarrow> py_error + 's" where
  "fold_err f [] s = Inr s"
| "fold_err f (x # xs) s = (case f x s of Inl e \<Rightarrow> Inl e | Inr s' \<Rightarrow> fold_err f xs s')"

section \<open>\<open>codes/data/multiscale_dataset.py\<close>: the tile tree\<close>

text \<open>
  \<^verbatim>\<open>
  class MultiscaleTreeNode:
      def __init__(self, index, parent):
          self.index = index
          self.parent = parent
          self.children = []

      def add_child(self, child):
          self.children.append(child)
          return child
  \<close>
  Nodes are mutable objects that refer to each other, so they live in a store: a list of
  node records, a reference being a position in that list. The constructor allocates at
  the end of the store.
\<close>

record MultiscaleTreeNode =
  index :: int
  parent :: "nat option"
  children :: "nat list"

type_synonym heap = "MultiscaleTreeNode list"

definition new_MultiscaleTreeNode :: "int \<Rightarrow> nat option \<Rightarrow> heap \<Rightarrow> nat \<times> heap" where
  "new_MultiscaleTreeNode i p h =
     (length h, h @ [\<lparr>index = i, parent = p, children = []\<rparr>])"

definition add_child :: "nat \<Rightarrow> nat \<Rightarrow> heap \<Rightarrow> nat \<times> heap" where
  "add_child self child h =
     (child, h[self := (h ! self)\<lparr>children := children (h ! self) @ [child]\<rparr>])"

text \<open>
  \<^verbatim>\<open>subnodes = [node.add_child(MultiscaleTreeNode(ind+i, node)) for i in range(4)]\<close>
\<close>

definition make_subnodes :: "int \<Rightarrow> nat \<Rightarrow> heap \<Rightarrow> nat list \<times> heap" where
  "make_subnodes ind node h =
     foldl (\<lambda>(acc, h0) i.
              let (c, h1) = new_MultiscaleTreeNode (ind + int i) (Some node) h0;
                  (c', h2) = add_child node c h1
              in (acc @ [c'], h2))
           ([], h) [0..<4]"

text \<open>
  \<^verbatim>\<open>
  def _build_multiscale_patch_index_map(depth, ind, node, leaves):
      subnodes = [node.add_child(MultiscaleTreeNode(ind+i, node)) for i in range(4)]
      ind += 4
      if depth == 1:
          leaves.extend(subnodes)
      else:
          for n in subnodes:
              ind = _build_multiscale_patch_index_map(depth-1, ind, n, leaves)
      return ind
  \<close>
  The first argument of the model is the number of nested calls the interpreter still
  allows; a call made with none left raises \<open>RecursionError\<close>. The \<open>for\<close> loop is
  \<open>build_loop\<close>; it threads \<open>ind\<close>, the list \<open>leaves\<close> and the store through the
  siblings, and an exception raised in one sibling ends the loop.
\<close>

fun build_multiscale_patch_index_map_rec ::
      "nat \<Rightarrow> int \<Rightarrow> int \<Rightarrow> nat \<Rightarrow> nat list \<Rightarrow> heap \<Rightarrow> py_error + (int \<times> nat list \<times> heap)"
  and build_loop ::
      "nat \<Rightarrow> int \<Rightarrow> nat list \<Rightarrow> int \<Rightarrow> nat list \<Rightarrow> heap \<Rightarrow> py_error + (int \<times> nat list \<times> heap)"
where
  "build_multiscale_patch_index_map_rec 0 depth ind node leaves h = Inl RecursionError"
| "build_multiscale_patch_index_map_rec (Suc fuel) depth ind node leaves h =
     (let (subnodes, h1) = make_subnodes ind node h;
          ind1 = ind + 4
      in if depth = 1 then Inr (ind1, leaves @ subnodes, h1)
         else build_loop fuel (depth - 1) subnodes ind1 leaves h1)"
| "build_loop fuel depth [] ind leaves h = Inr (ind, leaves, h)"
| "build_loop fuel depth (n # ns) ind leaves h =
     (case build_multiscale_patch_index_map_rec fuel depth ind n leaves h of
        Inl e \<Rightarrow> Inl e
      | Inr (ind', leaves', h') \<Rightarrow> build_loop fuel depth ns ind' leaves' h')"

text \<open>
  \<^verbatim>\<open>
  def build_multiscale_patch_index_map(depth):
      if depth < 0:
          return
      root = MultiscaleTreeNode(0, None)
      leaves = []
      _build_multiscale_patch_index_map(depth-1, 1, root, leaves)
      return leaves
  \<close>
  A bare \<open>return\<close> yields Python's \<open>None\<close>; otherwise the result is the list of leaf
  references, returned here with the store they point into.
\<close>

definition build_multiscale_patch_index_map ::
  "nat \<Rightarrow> int \<Rightarrow> py_error + (nat list \<times> heap) option" where
  "build_multiscale_patch_index_map fuel depth =
     (if depth < 0 then Inr None
      else let (root, h) = new_MultiscaleTreeNode 0 None [];
               leaves = []
           in case build_multiscale_patch_index_map_rec fuel (depth - 1) 1 root leaves h of
                Inl e \<Rightarrow> Inl e
              | Inr (ind, leaves', h') \<Rightarrow> Inr (Some (leaves', h')))"

text \<open>
  Following \<open>node.parent\<close> exactly \<open>k\<close> times, as the loop
  \<^verbatim>\<open>while node is not None: ...; node = node.parent\<close> of the module's demo does:
  \<open>None\<close> when the chain ends earlier.
\<close>

fun ancestor :: "heap \<Rightarrow> nat \<Rightarrow> nat \<Rightarrow> nat option" where
  "ancestor h 0 n = Some n"
| "ancestor h (Suc k) n =
     (case parent (h ! n) of None \<Rightarrow> None | Some p \<Rightarrow> ancestor h k p)"

text \<open>A node is the root when it has no parent and carries index 0.\<close>

definition is_root :: "heap \<Rightarrow> nat \<Rightarrow> bool" where
  "is_root h r = (r < length h \<and> parent (h ! r) = None \<and> index (h ! r) = 0)"

text \<open>
  Three relations between stores, used to state what the builder preserves.
  \<open>heap_le h h'\<close>: \<open>h'\<close> keeps every node of \<open>h\<close> with its index and parent
  (only \<open>children\<close> lists are mutated, and new nodes are appended).
  \<open>wf_heap h\<close>: every parent reference points into the store.
  \<open>grown h k r new h'\<close>: \<open>new\<close> are nodes allocated after \<open>h\<close>, in allocation
  order, each with \<open>r\<close> as its \<open>k\<close>-th ancestor in \<open>h'\<close>.
\<close>

definition heap_le :: "heap \<Rightarrow> heap \<Rightarrow> bool" where
  "heap_le h h' =
     (length h \<le> length h' \<and>
      (\<forall>a<length h. parent (h' ! a) = parent (h ! a) \<and> index (h' ! a) = index (h ! a)))"

definition wf_heap :: "heap \<Rightarrow> bool" where
  "wf_heap h = (\<forall>a<length h. \<forall>p. parent (h ! a) = Some p \<longrightarrow> p < length h)"

definition grown :: "heap \<Rightarrow> nat \<Rightarrow> nat \<Rightarrow> nat list \<Rightarrow> heap \<Rightarrow> bool" where
  "grown h k r new h' =
     (heap_le h h' \<and> wf_heap h' \<and>
      (\<forall>l\<in>set new. length h \<le> l \<and> l < length h' \<and> ancestor h' k l = Some r) \<and>
      sorted_wrt (<) new)"

section \<open>\<open>codes/data/multiscale_dataset.py\<close>: the dataset\<close>

subsection \<open>Images, slices and list indexing\<close>

text \<open>
  An image is a numpy array of shape \<open>(h, w, c)\<close>: here a list of \<open>h\<close> rows, each a
  list of \<open>w\<close> pixels; a pixel (its \<open>c\<close> channel values) is a value of the type
  parameter. \<open>image.shape[1]\<close> is the length of a row.
\<close>

type_synonym 'a image = "'a list list"

definition img_width :: "'a image \<Rightarrow> nat" where
  "img_width img = (case img of [] \<Rightarrow> 0 | row # _ \<Rightarrow> length row)"

text \<open>
  Python's slice \<open>xs[start:stop]\<close>: a negative bound counts from the end, every bound is
  clipped to \<open>0 .. len(xs)\<close>, an omitted bound (\<open>None\<close>) is the respective end, and a
  slice whose start is not before its stop is empty. Slicing never raises.
\<close>

definition slice_bound :: "nat \<Rightarrow> int \<Rightarrow> nat" where
  "slice_bound n i = nat (if i < 0 then max (i + int n) 0 else min i (int n))"

definition py_slice :: "'a list \<Rightarrow> int option \<Rightarrow> int option \<Rightarrow> 'a list" where
  "py_slice xs start stop =
     (let n = length xs;
          lo = (case start of None \<Rightarrow> 0 | Some a \<Rightarrow> slice_bound n a);
          hi = (case stop of None \<Rightarrow> n | Some b \<Rightarrow> slice_bound n b)
      in take (hi - lo) (drop lo xs))"

text \<open>\<open>img[r0:r1, c0:c1]\<close>: the row slice, then the column slice of every row kept.\<close>

definition crop ::
  "'a image \<Rightarrow> int option \<times> int option \<Rightarrow> int option \<times> int option \<Rightarrow> 'a image" where
  "crop img rows cols =
     map (\<lambda>row. py_slice row (fst cols) (snd cols)) (py_slice img (fst rows) (snd rows))"

text \<open>
  \<open>a % b\<close> on Python integers (the sign of the result follows the divisor, as HOL's
  \<open>mod\<close> on \<open>int\<close> does) and \<open>xs[i]\<close> on a list, with the exceptions they raise.
\<close>

definition py_mod :: "int \<Rightarrow> int \<Rightarrow> py_error + int" where
  "py_mod a b = (if b = 0 then Inl ZeroDivisionError else Inr (a mod b))"

definition py_getitem :: "'a list \<Rightarrow> int \<Rightarrow> py_error + 'a" where
  "py_getitem xs i =
     (if 0 \<le> i \<and> i < int (length xs) then Inr (xs ! nat i)
      else if i < 0 \<and> - int (length xs) \<le> i then Inr (xs ! nat (i + int (length xs)))
      else Inl IndexError)"

text \<open>\<open>int(x)\<close> of a float truncates toward zero.\<close>

definition py_int :: "real \<Rightarrow> int" where
  "py_int x = (if 0 \<le> x then \<lfloor>x\<rfloor> else \<lceil>x\<rceil>)"

subsection \<open>\<open>MultiScaleDataset\<close>\<close>

text \<open>
  \<^verbatim>\<open>
  def __init__(self, opt):
      ...
      self.tile_size = self.opt['hq_tile_size']
      self.num_scales = self.opt['num_scales']
      self.hq_size_cap = self.tile_size * 2 ** self.num_scales
      self.scale = self.opt['scale']
      self.paths_hq, self.sizes_hq = util.get_image_paths(self.data_type, opt['dataroot'], [1])
  \<close>
  The object is the record of the fields \<open>__init__\<close> reads from \<open>opt\<close> and from
  \<open>util.get_image_paths\<close>; \<open>hq_size_cap\<close> is computed from two of them and never
  assigned again. (For a negative \<open>num_scales\<close> Python's power is a float; the
  definition below is the integer power, which is what the code computes for
  \<open>num_scales \<ge> 0\<close>.)
\<close>

record MultiScaleDataset =
  tile_size :: int
  num_scales :: int
  scale :: real
  paths_hq :: "string list"

definition hq_size_cap :: "MultiScaleDataset \<Rightarrow> int" where
  "hq_size_cap self = tile_size self * 2 ^ nat (num_scales self)"

text \<open>
  \<^verbatim>\<open>
  def get_square_image(self, image):
      h, w, _ = image.shape
      if h == w:
          return image
      offset = max(min(np.random.normal(scale=.3), 1.0), -1.0)
      if h > w:
          diff = h - w
          center = diff // 2
          top = int(center + offset * (center - 2))
          return image[top:top+w, :, :]
      else:
          diff = w - h
          center = diff // 2
          left = int(center + offset * (center - 2))
          return image[:, left:left+h, :]
  \<close>
  The value drawn by \<open>np.random.normal(scale=.3)\<close> is an argument of the model.
  Floats are modelled by the reals they denote; the inputs used below (offsets 1, -1 and
  1/2, small integers) are computed exactly by floating-point arithmetic as well.
\<close>

definition get_square_image :: "'a image \<Rightarrow> real \<Rightarrow> 'a image" where
  "get_square_image img normal_draw =
     (let h = int (length img); w = int (img_width img)
      in if h = w then img
         else let offset = max (min normal_draw 1.0) (- 1.0)
              in if h > w then
                   let diff = h - w;
                       center = diff div 2;
                       top = py_int (of_int center + offset * of_int (center - 2))
                   in crop img (Some top, Some (top + w)) (None, None)
                 else
                   let diff = w - h;
                       center = diff div 2;
                       left = py_int (of_int center + offset * of_int (center - 2))
                   in crop img (None, None) (Some left, Some (left + h)))"

text \<open>
  \<^verbatim>\<open>
  def recursively_extract_patches(self, input_img, result_list, depth):
      if depth >= self.num_scales:
          return
      patch_size = self.hq_size_cap // (2 ** depth)
      # First pull the four sub-patches.
      patches = [input_img[:patch_size, :patch_size],
                 input_img[:patch_size, patch_size:],
                 input_img[patch_size:, :patch_size],
                 input_img[patch_size:, patch_size:]]
      result_list.extend([cv2.resize(p, (self.tile_size, self.tile_size),
                                     interpolation=cv2.INTER_AREA) for p in patches])
      for p in patches:
          self.recursively_extract_patches(p, result_list, depth+1)
  \<close>
  The list \<open>result_list\<close> is mutated in place; the model returns the new list.
  \<open>cv2.resize\<close> belongs to a library: it is the argument \<open>resize\<close>, and nothing is
  assumed about it. \<open>depth\<close> starts at 1 and grows, so \<open>2 ** depth\<close> is an integer
  power. The recursion ends because \<open>num_scales - depth\<close> decreases.
\<close>

function recursively_extract_patches ::
  "MultiScaleDataset \<Rightarrow> ('a image \<Rightarrow> int \<times> int \<Rightarrow> 'a image) \<Rightarrow>
     'a image \<Rightarrow> 'a image list \<Rightarrow> int \<Rightarrow> 'a image list" where
  "recursively_extract_patches self resize input_img result_list depth =
     (if depth \<ge> num_scales self then result_list
      else
        let patch_size = hq_size_cap self div 2 ^ nat depth;
            patches = [crop input_img (None, Some patch_size) (None, Some patch_size),
                       crop input_img (None, Some patch_size) (Some patch_size, None),
                       crop input_img (Some patch_size, None) (None, Some patch_size),
                       crop input_img (Some patch_size, None) (Some patch_size, None)];
            result_list1 = result_list @
               map (\<lambda>p. resize p (tile_size self, tile_size self)) patches
        in foldl (\<lambda>rl p. recursively_extract_patches self resize p rl (depth + 1))
             result_list1 patches)"
  by pat_completeness auto
termination
  by (relation "measure (\<lambda>(self, resize, input_img, result_list, depth).
                  nat (num_scales self - depth))") auto

text \<open>
  Lines 63 and 64 of \<open>__getitem__\<close>, the HQ pyramid of a capped square image:
  \<^verbatim>\<open>
  patches_hq = [cv2.resize(img_full, (self.tile_size, self.tile_size), interpolation=cv2.INTER_AREA)]
  self.recursively_extract_patches(img_full, patches_hq, 1)
  \<close>
\<close>

definition patches_hq ::
  "MultiScaleDataset \<Rightarrow> ('a image \<Rightarrow> int \<times> int \<Rightarrow> 'a image) \<Rightarrow> 'a image \<Rightarrow> 'a image list" where
  "patches_hq self resize img_full =
     recursively_extract_patches self resize img_full
       [resize img_full (tile_size self, tile_size self)] 1"

text \<open>
  Line 57, \<^verbatim>\<open>full_path = self.paths_hq[index % len(self.paths_hq)]\<close>, and
  \<^verbatim>\<open>def __len__(self): return len(self.paths_hq)\<close>.
\<close>

definition MultiScaleDataset_len :: "MultiScaleDataset \<Rightarrow> nat" where
  "MultiScaleDataset_len self = length (paths_hq self)"

definition select_path :: "MultiScaleDataset \<Rightarrow> int \<Rightarrow> py_error + string" where
  "select_path self idx =
     (case py_mod idx (int (length (paths_hq self))) of
        Inl e \<Rightarrow> Inl e
      | Inr i \<Rightarrow> py_getitem (paths_hq self) i)"

text \<open>
  \<^verbatim>\<open>
  def __getitem__(self, index):
      # get full size image
      full_path = self.paths_hq[index % len(self.paths_hq)]
      img_full = util.read_img(None, full_path, None)
      img_full = util.channel_convert(img_full.shape[2], 'RGB', [img_full])[0]
      img_full = util.augment([img_full], True, True)[0]
      img_full = self.get_square_image(img_full)
      img_full = cv2.resize(img_full, (self.hq_size_cap, self.hq_size_cap), interpolation=cv2.INTER_AREA)
      patches_hq = [cv2.resize(img_full, (self.tile_size, self.tile_size), interpolation=cv2.INTER_AREA)]
      self.recursively_extract_patches(img_full, patches_hq, 1)

      # BGR to RGB, HWC to CHW, numpy to tensor
      if patches_hq[0].shape[2] == 3:
          patches_hq = [cv2.cvtColor(p, cv2.COLOR_BGR2RGB) for p in patches_hq]
      patches_hq = [torch.from_numpy(np.ascontiguousarray(np.transpose(p, (2, 0, 1)))).float() for p in patches_hq]
      patches_lq = [torch.nn.functional.interpolate(p.unsqueeze(0), scale_factor=1/self.scale, mode='bilinear').squeeze() for p in patches_hq]

      d = {'LQ': patches_lq, 'HQ': patches_hq, 'GT_path': full_path}
      return d
  \<close>
  What the method calls outside this file is a record of functions: the three helpers of
  \<open>data.util\<close> (reading may fail), \<open>cv2.resize\<close>, the conversion of a patch to a
  tensor (the colour conversion and the transposition, one patch at a time) and torch's
  \<open>interpolate\<close>. \<open>1/self.scale\<close> raises \<open>ZeroDivisionError\<close> when \<open>scale\<close> is 0; it
  is evaluated for the first patch, and the pyramid always has one.
\<close>

record ('a, 't) externals =
  read_img :: "string \<Rightarrow> py_error + 'a image"
  channel_convert :: "'a image \<Rightarrow> 'a image"
  augment :: "'a image \<Rightarrow> 'a image"
  cv2_resize :: "'a image \<Rightarrow> int \<times> int \<Rightarrow> 'a image"
  to_tensor :: "'a image \<Rightarrow> 't"
  interpolate :: "'t \<Rightarrow> real \<Rightarrow> 't"

record 't sample =
  LQ :: "'t list"
  HQ :: "'t list"
  GT_path :: string

definition getitem ::
  "('a, 't) externals \<Rightarrow> MultiScaleDataset \<Rightarrow> real \<Rightarrow> int \<Rightarrow> py_error + 't sample" where
  "getitem ext self normal_draw idx =
     (case select_path self idx of
        Inl e \<Rightarrow> Inl e
      | Inr full_path \<Rightarrow>
          (case read_img ext full_path of
             Inl e \<Rightarrow> Inl e
           | Inr img0 \<Rightarrow>
               let img1 = channel_convert ext img0;
                   img2 = augment ext img1;
                   img3 = get_square_image img2 normal_draw;
                   img_full = cv2_resize ext img3 (hq_size_cap self, hq_size_cap self);
                   hq = map (to_tensor ext) (patches_hq self (cv2_resize ext) img_full)
               in if scale self = 0 then Inl ZeroDivisionError
                  else Inr \<lparr>LQ = map (\<lambda>p. interpolate ext p (1 / scale self)) hq,
                            HQ = hq, GT_path = full_path\<rparr>))"

text \<open>
  A resize to run the model on examples: nearest-neighbour sampling to \<open>dsize\<close>
  (width, height), one of the interpolation modes of \<open>cv2.resize\<close>.
\<close>

definition resize_nearest :: "'a image \<Rightarrow> int \<times> int \<Rightarrow> 'a image" where
  "resize_nearest img dsize =
     (let w = nat (fst dsize); h = nat (snd dsize)
      in map (\<lambda>i. map (\<lambda>j. img ! (i * length img div h) ! (j * img_width img div w)) [0..<w])
           [0..<h])"

text \<open>
  The number of patches one call of \<open>recursively_extract_patches\<close> appends when \<open>k\<close>
  levels remain: four, and what the four recursive calls append.
\<close>

fun pyramid_growth :: "nat \<Rightarrow> nat" where
  "pyramid_growth 0 = 0"
| "pyramid_growth (Suc k) = 4 + 4 * pyramid_growth k"

text \<open>
  A dataset and stand-ins for the external functions, to run \<open>getitem\<close> on examples:
  one readable 4 x 4 file among three paths, helpers that leave the image as it is, the
  nearest-neighbour resize, and tensors represented by the patches themselves.
\<close>

definition example_dataset :: "int \<Rightarrow> MultiScaleDataset" where
  "example_dataset n =
     \<lparr>tile_size = 1, num_scales = n, scale = 2,
      paths_hq = [''a.png'', ''b.png'', ''c.png'']\<rparr>"

definition example_image :: "nat image" where
  "example_image = [[1, 2, 3, 4], [5, 6, 7, 8], [9, 10, 11, 12], [13, 14, 15, 16]]"

definition example_externals :: "(nat, nat image) externals" where
  "example_externals =
     \<lparr>read_img = (\<lambda>path. if path = ''b.png'' then Inr example_image else Inl ReadError),
      channel_convert = (\<lambda>img. img),
      augment = (\<lambda>img. img),
      cv2_resize = resize_nearest,
      to_tensor = (\<lambda>img. img),
      interpolate = (\<lambda>p factor. p)\<rparr>"

section \<open>\<open>codes/models/gpt_voice/unet_diffusion_vocoder_with_ref_trunc_top.py\<close>\<close>

subsection \<open>The constructor's arguments and the modules it creates\<close>

text \<open>
  The arguments of \<open>DiffusionVocoderWithRefTruncatedTop.__init__\<close> that decide which
  modules are created and with which channel counts. The remaining arguments
  (\<open>dropout\<close>, \<open>conv_resample\<close>, \<open>dims\<close>, \<open>use_fp16\<close>, \<open>num_head_channels\<close>,
  \<open>use_scale_shift_norm\<close>, \<open>use_new_attention_order\<close>, \<open>kernel_size\<close>,
  \<open>scale_factor\<close>, \<open>conditioning_input_dim\<close>, \<open>time_embed_dim_multiplier\<close>) are
  only handed on to the layers' constructors. \<open>channel_mult\<close> may hold floats (the
  default has 1.5); \<open>num_res_blocks\<close> holds block counts, natural numbers, and
  \<open>range(num_blocks)\<close> runs that many times.
\<close>

record config =
  model_channels :: int
  in_channels :: int
  out_channels :: int
  discrete_codes :: int
  channel_mult :: "real list"
  num_res_blocks :: "nat list"
  spectrogram_conditioning_resolutions :: "int list"
  attention_resolutions :: "int list"
  num_heads :: int
  num_heads_upsample :: int
  resblock_updown :: bool
  conditioning_inputs_provided :: bool
  only_train_dvae_connection_layers :: bool

text \<open>
  The layers, by class and channel counts (input, output), and the two kinds of entries of
  the module lists.
\<close>

datatype layer =
    Conv int int
  | ResBlock int int
  | ResBlockDown int int
  | ResBlockUp int int
  | AttentionBlock int int
  | Downsample int int
  | Upsample int int

datatype block =
    TimestepEmbedSequential "layer list"
  | DiscreteSpectrogramConditioningBlock int int

fun is_spectrogram_block :: "block \<Rightarrow> bool" where
  "is_spectrogram_block (DiscreteSpectrogramConditioningBlock dvae_channels channels) = True"
| "is_spectrogram_block (TimestepEmbedSequential layers) = False"

subsection \<open>The block lists built by \<open>__init__\<close>\<close>

text \<open>
  The state of lines 132 to 271: the module lists \<open>self.input_blocks\<close> and
  \<open>self.output_blocks\<close>, \<open>self._feature_size\<close>, and the locals
  \<open>spectrogram_blocks\<close>, \<open>input_block_chans\<close>, \<open>ch\<close> and \<open>ds\<close>. The list
  \<open>spectrogram_blocks\<close> holds references to modules that are also entries of
  \<open>self.input_blocks\<close>; a reference is the entry's position in \<open>input_blocks\<close>.
\<close>

record plan =
  input_blocks :: "block list"
  spectrogram_blocks :: "nat list"
  feature_size :: int
  input_block_chans :: "int list"
  ch :: int
  ds :: int
  output_blocks :: "block list"

text \<open>
  Lines 146 to 150, the conditioning block of a level:
  \<^verbatim>\<open>
  if ds in spectrogram_conditioning_resolutions:
      spec_cond_block = DiscreteSpectrogramConditioningBlock(discrete_codes, ch)
      self.input_blocks.append(spec_cond_block)
      spectrogram_blocks.append(spec_cond_block)
      ch *= 2
  \<close>
\<close>

definition spec_cond_step :: "config \<Rightarrow> plan \<Rightarrow> plan" where
  "spec_cond_step cfg s =
     (if ds s \<in> set (spectrogram_conditioning_resolutions cfg) then
        s\<lparr>input_blocks := input_blocks s @
              [DiscreteSpectrogramConditioningBlock (discrete_codes cfg) (ch s)],
          spectrogram_blocks := spectrogram_blocks s @ [length (input_blocks s)],
          ch := ch s * 2\<rparr>
      else s)"

text \<open>
  Lines 153 to 176, the body of \<^verbatim>\<open>for _ in range(num_blocks)\<close>:
  \<^verbatim>\<open>
  layers = [ResBlock(ch, time_embed_dim, dropout, out_channels=int(mult * model_channels), ...)]
  ch = int(mult * model_channels)
  if ds in attention_resolutions:
      layers.append(AttentionBlock(ch, num_heads=num_heads, ...))
  self.input_blocks.append(TimestepEmbedSequential(*layers))
  self._feature_size += ch
  input_block_chans.append(ch)
  \<close>
\<close>

definition res_step :: "config \<Rightarrow> real \<Rightarrow> plan \<Rightarrow> plan" where
  "res_step cfg mult s =
     (let out_ch = py_int (mult * of_int (model_channels cfg));
          layers = [ResBlock (ch s) out_ch] @
                   (if ds s \<in> set (attention_resolutions cfg)
                    then [AttentionBlock out_ch (num_heads cfg)] else [])
      in s\<lparr>input_blocks := input_blocks s @ [TimestepEmbedSequential layers],
            ch := out_ch,
            feature_size := feature_size s + out_ch,
            input_block_chans := input_block_chans s @ [out_ch]\<rparr>)"

text \<open>
  Lines 177 to 200, the downsampling stage of every level but the last:
  \<^verbatim>\<open>
  if level != len(channel_mult) - 1:
      out_ch = ch
      self.input_blocks.append(TimestepEmbedSequential(
          ResBlock(ch, ..., out_channels=out_ch, down=True, ...) if resblock_updown
          else Downsample(ch, conv_resample, dims=dims, out_channels=out_ch, factor=scale_factor)))
      ch = out_ch
      input_block_chans.append(ch)
      ds *= 2
      self._feature_size += ch
  \<close>
\<close>

definition downsample_step :: "config \<Rightarrow> nat \<Rightarrow> plan \<Rightarrow> plan" where
  "downsample_step cfg level s =
     (if int level \<noteq> int (length (channel_mult cfg)) - 1 then
        s\<lparr>input_blocks := input_blocks s @
              [TimestepEmbedSequential
                 [if resblock_updown cfg then ResBlockDown (ch s) (ch s)
                  else Downsample (ch s) (ch s)]],
          input_block_chans := input_block_chans s @ [ch s],
          ds := ds s * 2,
          feature_size := feature_size s + ch s\<rparr>
      else s)"

text \<open>
  One iteration of
  \<^verbatim>\<open>for level, (mult, num_blocks) in enumerate(zip(channel_mult, num_res_blocks))\<close>,
  and the loop (lines 145 to 200).
\<close>

definition down_level :: "config \<Rightarrow> nat \<times> real \<times> nat \<Rightarrow> plan \<Rightarrow> plan" where
  "down_level cfg lv s =
     (case lv of (level, mult, num_blocks) \<Rightarrow>
        downsample_step cfg level ((res_step cfg mult ^^ num_blocks) (spec_cond_step cfg s)))"

definition levels :: "config \<Rightarrow> (nat \<times> real \<times> nat) list" where
  "levels cfg = enumerate 0 (zip (channel_mult cfg) (num_res_blocks cfg))"

definition down_path :: "config \<Rightarrow> plan \<Rightarrow> plan" where
  "down_path cfg s = foldl (\<lambda>s lv. down_level cfg lv s) s (levels cfg)"

text \<open>
  Lines 231 to 271, the body of \<^verbatim>\<open>for i in range(num_blocks + 1)\<close> on the up path:
  \<^verbatim>\<open>
  ich = input_block_chans.pop()
  layers = [ResBlock(ch + ich, time_embed_dim, dropout, out_channels=int(model_channels * mult), ...)]
  ch = int(model_channels * mult)
  if ds in attention_resolutions:
      layers.append(AttentionBlock(ch, num_heads=num_heads_upsample, ...))
  if level and i == num_blocks:
      out_ch = ch
      layers.append(ResBlock(ch, ..., out_channels=out_ch, up=True, ...) if resblock_updown
                    else Upsample(ch, conv_resample, dims=dims, out_channels=out_ch, factor=scale_factor))
      ds //= 2
  self.output_blocks.append(TimestepEmbedSequential(*layers))
  self._feature_size += ch
  \<close>
  \<open>list.pop()\<close> removes and returns the last entry and raises \<open>IndexError\<close> on an empty
  list. Lines 101 and 102 replace \<open>num_heads_upsample = -1\<close> by \<open>num_heads\<close>.
\<close>

definition heads_upsample :: "config \<Rightarrow> int" where
  "heads_upsample cfg =
     (if num_heads_upsample cfg = - 1 then num_heads cfg else num_heads_upsample cfg)"

definition up_step :: "config \<Rightarrow> nat \<Rightarrow> real \<Rightarrow> nat \<Rightarrow> nat \<Rightarrow> plan \<Rightarrow> py_error + plan" where
  "up_step cfg level mult num_blocks i s =
     (if input_block_chans s = [] then Inl IndexError
      else
        let ich = last (input_block_chans s);
            out_ch = py_int (of_int (model_channels cfg) * mult);
            attn = (if ds s \<in> set (attention_resolutions cfg)
                    then [AttentionBlock out_ch (heads_upsample cfg)] else []);
            up = (level \<noteq> 0 \<and> i = num_blocks)
        in Inr (s\<lparr>input_block_chans := butlast (input_block_chans s),
                   output_blocks := output_blocks s @
                     [TimestepEmbedSequential
                        ([ResBlock (ch s + ich) out_ch] @ attn @
                         (if up then [if resblock_updown cfg then ResBlockUp out_ch out_ch
                                      else Upsample out_ch out_ch]
                          else []))],
                   ch := out_ch,
                   ds := (if up then ds s div 2 else ds s),
                   feature_size := feature_size s + out_ch\<rparr>))"

text \<open>
  Lines 229 and 230:
  \<^verbatim>\<open>
  for level, (mult, num_blocks) in list(enumerate(zip(channel_mult, num_res_blocks)))[::-1]:
      for i in range(num_blocks + 1):
  \<close>
\<close>

definition up_level :: "config \<Rightarrow> nat \<times> real \<times> nat \<Rightarrow> plan \<Rightarrow> py_error + plan" where
  "up_level cfg lv s =
     (case lv of (level, mult, num_blocks) \<Rightarrow>
        fold_err (up_step cfg level mult num_blocks) [0..<num_blocks + 1] s)"

definition up_path :: "config \<Rightarrow> plan \<Rightarrow> py_error + plan" where
  "up_path cfg s = fold_err (up_level cfg) (rev (levels cfg)) s"

text \<open>
  The first input block and the initial locals (lines 132 to 143), and the middle block
  (lines 202 to 226), which is built from \<open>ch\<close> after the down path.
  \<^verbatim>\<open>
  self.input_blocks = nn.ModuleList([TimestepEmbedSequential(
      conv_nd(dims, model_channels//2, model_channels, kernel_size, padding=padding))])
  spectrogram_blocks = []
  self._feature_size = model_channels
  input_block_chans = [model_channels]
  ch = model_channels
  ds = 1
  \<close>
\<close>

definition initial_plan :: "config \<Rightarrow> plan" where
  "initial_plan cfg =
     \<lparr>input_blocks =
        [TimestepEmbedSequential [Conv (model_channels cfg div 2) (model_channels cfg)]],
      spectrogram_blocks = [],
      feature_size = model_channels cfg,
      input_block_chans = [model_channels cfg],
      ch = model_channels cfg,
      ds = 1,
      output_blocks = []\<rparr>"

definition middle_block_of :: "config \<Rightarrow> plan \<Rightarrow> block" where
  "middle_block_of cfg s =
     TimestepEmbedSequential
       [ResBlock (ch s) (ch s), AttentionBlock (ch s) (num_heads cfg), ResBlock (ch s) (ch s)]"

text \<open>
  The number of entries one level pushes onto \<open>input_block_chans\<close> on the down path
  (one per residual block, one for the downsampling stage of a level that is not the
  last), and the number it pops on the up path.
\<close>

definition pushes :: "config \<Rightarrow> nat \<times> real \<times> nat \<Rightarrow> nat" where
  "pushes cfg lv = (case lv of (level, mult, num_blocks) \<Rightarrow>
      num_blocks + (if int level \<noteq> int (length (channel_mult cfg)) - 1 then 1 else 0))"

definition pops :: "nat \<times> real \<times> nat \<Rightarrow> nat" where
  "pops lv = (case lv of (level, mult, num_blocks) \<Rightarrow> num_blocks + 1)"

subsection \<open>The network object\<close>

text \<open>
  The object \<open>__init__\<close> leaves behind: the block lists and locals above in their final
  state, the flags \<open>conditioning_enabled\<close> and \<open>training\<close> (\<open>nn.Module\<close> sets
  \<open>training = True\<close>), the middle block and the blocks of the truncated top
  (lines 275 to 307). \<open>self.time_embed\<close>, \<open>self.contextual_embedder\<close> and
  \<open>self.top_out_final\<close> are modules of other classes; they appear among the registered
  modules below.

  The top block lists are built by \<^verbatim>\<open>for _ in range(num_blocks)\<close> after the loops: there
  \<open>num_blocks\<close> is the variable the up-path loop assigned last, the count of level 0.
  When \<open>zip(channel_mult, num_res_blocks)\<close> is empty the variable was never assigned and
  the read raises \<open>NameError\<close>.
\<close>

record network = plan +
  conditioning_enabled :: bool
  training :: bool
  cheater_input_block :: block
  middle_block :: block
  top_inp_raw :: block
  top_inp_blocks :: "block list"
  top_out_upsample :: block
  top_out_blocks :: "block list"

definition build_network :: "config \<Rightarrow> py_error + network" where
  "build_network cfg =
     (let s1 = down_path cfg (initial_plan cfg);
          middle = middle_block_of cfg s1;
          s2 = s1\<lparr>feature_size := feature_size s1 + ch s1\<rparr>
      in case up_path cfg s2 of
           Inl e \<Rightarrow> Inl e
         | Inr s3 \<Rightarrow>
             (case levels cfg of
                [] \<Rightarrow> Inl NameError
              | (level, mult, num_blocks) # _ \<Rightarrow>
                  Inr \<lparr>input_blocks = input_blocks s3,
                       spectrogram_blocks = spectrogram_blocks s3,
                       feature_size = feature_size s3,
                       input_block_chans = input_block_chans s3,
                       ch = ch s3,
                       ds = ds s3,
                       output_blocks = output_blocks s3,
                       conditioning_enabled = conditioning_inputs_provided cfg,
                       training = True,
                       cheater_input_block =
                         TimestepEmbedSequential
                           [Conv (in_channels cfg) (model_channels cfg div 2)],
                       middle_block = middle,
                       top_inp_raw =
                         TimestepEmbedSequential [Conv (in_channels cfg) (model_channels cfg)],
                       top_inp_blocks =
                         replicate num_blocks
                           (TimestepEmbedSequential
                              [ResBlock (model_channels cfg) (model_channels cfg)]),
                       top_out_upsample =
                         TimestepEmbedSequential
                           [if resblock_updown cfg
                            then ResBlockUp (model_channels cfg) (model_channels cfg)
                            else Upsample (ch s3) (model_channels cfg)],
                       top_out_blocks =
                         replicate num_blocks
                           (TimestepEmbedSequential
                              [ResBlock (2 * model_channels cfg) (model_channels cfg)])\<rparr>))"

subsection \<open>Parameters and the flag \<open>only_train_dvae_connection_layers\<close>\<close>

text \<open>
  The modules registered on the network, in the order their attributes are assigned;
  \<open>self.parameters()\<close> walks them in this order. A parameter is named by its module and
  its position among that module's parameters; how many parameters a module has is
  decided by classes outside this file and is an argument (\<open>n_params\<close>) of the model.
  Each parameter carries \<open>requires_grad\<close> and, when the attribute has been set,
  \<open>DO_NOT_TRAIN\<close>.
\<close>

datatype module_ref =
    TimeEmbed
  | ContextualEmbedder
  | CheaterInputBlock
  | InputBlocks nat
  | MiddleBlock
  | OutputBlocks nat
  | TopInpRaw
  | TopInpBlocks nat
  | TopOutUpsample
  | TopOutBlocks nat
  | TopOutFinal

definition modules :: "network \<Rightarrow> module_ref list" where
  "modules self =
     [TimeEmbed] @
     (if conditioning_enabled self then [ContextualEmbedder] else []) @
     [CheaterInputBlock] @
     map InputBlocks [0..<length (input_blocks self)] @
     [MiddleBlock] @
     map OutputBlocks [0..<length (output_blocks self)] @
     [TopInpRaw] @
     map TopInpBlocks [0..<length (top_inp_blocks self)] @
     [TopOutUpsample] @
     map TopOutBlocks [0..<length (top_out_blocks self)] @
     [TopOutFinal]"

type_synonym param = "module_ref \<times> nat"

record param_attrs =
  requires_grad :: bool
  DO_NOT_TRAIN :: "bool option"

type_synonym param_store = "param \<Rightarrow> param_attrs"

definition module_parameters :: "(module_ref \<Rightarrow> nat) \<Rightarrow> module_ref \<Rightarrow> param list" where
  "module_parameters n_params m = map (Pair m) [0..<n_params m]"

definition parameters :: "(module_ref \<Rightarrow> nat) \<Rightarrow> network \<Rightarrow> param list" where
  "parameters n_params self = concat (map (module_parameters n_params) (modules self))"

text \<open>
  Lines 314 to 321:
  \<^verbatim>\<open>
  if only_train_dvae_connection_layers:
      for p in self.parameters():
          p.DO_NOT_TRAIN = True
          p.requires_grad = False
      for sb in spectrogram_blocks:
          for p in sb.parameters():
              del p.DO_NOT_TRAIN
              p.requires_grad = True
  \<close>
  \<open>del\<close> raises \<open>AttributeError\<close> when the attribute is not there.
\<close>

definition freeze_param :: "param \<Rightarrow> param_store \<Rightarrow> param_store" where
  "freeze_param p st = st(p := (st p)\<lparr>DO_NOT_TRAIN := Some True, requires_grad := False\<rparr>)"

definition unfreeze_param :: "param \<Rightarrow> param_store \<Rightarrow> py_error + param_store" where
  "unfreeze_param p st =
     (case DO_NOT_TRAIN (st p) of
        None \<Rightarrow> Inl AttributeError
      | Some b \<Rightarrow> Inr (st(p := (st p)\<lparr>DO_NOT_TRAIN := None, requires_grad := True\<rparr>)))"

definition train_only_dvae_connection_layers ::
  "(module_ref \<Rightarrow> nat) \<Rightarrow> network \<Rightarrow> param_store \<Rightarrow> py_error + param_store" where
  "train_only_dvae_connection_layers n_params self st =
     fold_err (\<lambda>sb. fold_err unfreeze_param (module_parameters n_params (InputBlocks sb)))
       (spectrogram_blocks self)
       (fold freeze_param (parameters n_params self) st)"

text \<open>
  The whole constructor: the network, and the parameter attributes before (\<open>st\<close>, as the
  layers' constructors leave them) and after.
\<close>

definition DiffusionVocoderWithRefTruncatedTop_init ::
  "config \<Rightarrow> (module_ref \<Rightarrow> nat) \<Rightarrow> param_store \<Rightarrow> py_error + (network \<times> param_store)" where
  "DiffusionVocoderWithRefTruncatedTop_init cfg n_params st =
     (case build_network cfg of
        Inl e \<Rightarrow> Inl e
      | Inr self \<Rightarrow>
          if only_train_dvae_connection_layers cfg then
            (case train_only_dvae_connection_layers n_params self st of
               Inl e \<Rightarrow> Inl e
             | Inr st' \<Rightarrow> Inr (self, st'))
          else Inr (self, st))"

text \<open>
  A parameter of a \<open>DiscreteSpectrogramConditioningBlock\<close> inserted into the down path.
\<close>

definition is_dvae_connection_param :: "network \<Rightarrow> param \<Rightarrow> bool" where
  "is_dvae_connection_param self p =
     (case fst p of
        InputBlocks i \<Rightarrow>
          i < length (input_blocks self) \<and> is_spectrogram_block (input_blocks self ! i)
      | _ \<Rightarrow> False)"

text \<open>
  \<open>spec_positions bs sb\<close>: the references \<open>sb\<close> are, without repetition, the
  positions of the \<open>DiscreteSpectrogramConditioningBlock\<close> entries of \<open>bs\<close>. It
  relates the local list \<open>spectrogram_blocks\<close> to \<open>self.input_blocks\<close>.
\<close>

definition spec_positions :: "block list \<Rightarrow> nat list \<Rightarrow> bool" where
  "spec_positions bs sb =
     (distinct sb \<and>
      (\<forall>i. i \<in> set sb \<longleftrightarrow> i < length bs \<and> is_spectrogram_block (bs ! i)))"

definition spec_inv :: "plan \<Rightarrow> bool" where
  "spec_inv s = spec_positions (input_blocks s) (spectrogram_blocks s)"

subsection \<open>\<open>forward\<close>: the entry checks and the bounds of the truncated top\<close>

text \<open>
  \<^verbatim>\<open>
  def forward(self, x, timesteps, spectrogram, conditioning_input=None):
      assert x.shape[-1] % 4096 == 0
      if self.conditioning_enabled:
          assert conditioning_input is not None
      ...
      if self.training:
          rand_start = (random.randint(0, x.shape[-1] // 2) // 2) * 2
          rand_stop = rand_start + x.shape[-1] // 2
      else:
          rand_start = 0
          rand_stop = x.shape[-1]
      ...
      return self.top_out_final(hb), rand_start, rand_stop
  \<close>
  \<open>n\<close> is \<open>x.shape[-1]\<close>. \<open>random.randint\<close> is the argument \<open>randint\<close> (the draw it
  makes for the bounds it is given). The tensor computation between the checks and the
  \<open>return\<close> (lines 336 to 377) is the argument \<open>run\<close>, a function of the inputs and of
  the two bounds; what it computes is outside this model.
\<close>

definition forward ::
  "network \<Rightarrow> (int \<Rightarrow> int \<Rightarrow> int) \<Rightarrow> ('x \<Rightarrow> 'c option \<Rightarrow> int \<Rightarrow> int \<Rightarrow> 'o) \<Rightarrow>
     'x \<Rightarrow> nat \<Rightarrow> 'c option \<Rightarrow> py_error + ('o \<times> int \<times> int)" where
  "forward self randint run x n conditioning_input =
     (if int n mod 4096 \<noteq> 0 then Inl AssertionError
      else if conditioning_enabled self \<and> conditioning_input = None then Inl AssertionError
      else
        let (rand_start, rand_stop) =
              (if training self then
                 let rand_start = (randint 0 (int n div 2) div 2) * 2
                 in (rand_start, rand_start + int n div 2)
               else (0, int n))
        in Inr (run x conditioning_input rand_start rand_stop, rand_start, rand_stop))"

text \<open>
  Examples to run the model on: the configuration of section 8 of the specification
  (\<open>channel_mult = (1, 2)\<close>, \<open>num_res_blocks = (1, 1)\<close>, 32 base channels) with
  conditioning and attention at the downsampling rate 2, two parameters per module, and
  parameters as their constructors leave them.
\<close>

definition example_config :: config where
  "example_config =
     \<lparr>model_channels = 32, in_channels = 1, out_channels = 2, discrete_codes = 512,
      channel_mult = [1, 2], num_res_blocks = [1, 1],
      spectrogram_conditioning_resolutions = [2], attention_resolutions = [2],
      num_heads = 1, num_heads_upsample = - 1, resblock_updown = False,
      conditioning_inputs_provided = True, only_train_dvae_connection_layers = True\<rparr>"

definition example_network :: network where
  "example_network =
     \<lparr>input_blocks =
        [TimestepEmbedSequential [Conv 16 32],
         TimestepEmbedSequential [ResBlock 32 32],
         TimestepEmbedSequential [Downsample 32 32],
         DiscreteSpectrogramConditioningBlock 512 32,
         TimestepEmbedSequential [ResBlock 64 64, AttentionBlock 64 1]],
      spectrogram_blocks = [3],
      feature_size = 416,
      input_block_chans = [],
      ch = 32,
      ds = 1,
      output_blocks =
        [TimestepEmbedSequential [ResBlock 128 64, AttentionBlock 64 1],
         TimestepEmbedSequential [ResBlock 96 64, AttentionBlock 64 1, Upsample 64 64],
         TimestepEmbedSequential [ResBlock 96 32],
         TimestepEmbedSequential [ResBlock 64 32]],
      conditioning_enabled = True,
      training = True,
      cheater_input_block = TimestepEmbedSequential [Conv 1 16],
      middle_block =
        TimestepEmbedSequential [ResBlock 64 64, AttentionBlock 64 1, ResBlock 64 64],
      top_inp_raw = TimestepEmbedSequential [Conv 1 32],
      top_inp_blocks = [TimestepEmbedSequential [ResBlock 32 32]],
      top_out_upsample = TimestepEmbedSequential [Upsample 32 32],
      top_out_blocks = [TimestepEmbedSequential [ResBlock 64 32]]\<rparr>"

definition fresh_params :: param_store where
  "fresh_params = (\<lambda>p. \<lparr>requires_grad = True, DO_NOT_TRAIN = None\<rparr>)"

definition two_params :: "module_ref \<Rightarrow> nat" where
  "two_params = (\<lambda>m. 2)"

section \<open>The tile tree: proofs\<close>

subsection \<open>The four children of a node\<close>

lemma upt4: "[0..<4] = [0, Suc 0, Suc (Suc 0), Suc (Suc (Suc 0))]"
  by (simp add: upt_rec)

lemma make_subnodes_eq:
  assumes "node < length h"
  shows "make_subnodes ind node h =
    ([length h, Suc (length h), Suc (Suc (length h)), Suc (Suc (Suc (length h)))],
     (h[node := (h ! node)\<lparr>children := children (h ! node) @
          [length h, Suc (length h), Suc (Suc (length h)), Suc (Suc (Suc (length h)))]\<rparr>])
       @ [\<lparr>index = ind, parent = Some node, children = []\<rparr>,
          \<lparr>index = ind + 1, parent = Some node, children = []\<rparr>,
          \<lparr>index = ind + 2, parent = Some node, children = []\<rparr>,
          \<lparr>index = ind + 3, parent = Some node, children = []\<rparr>])"
  using assms
  by (simp add: make_subnodes_def upt4 new_MultiscaleTreeNode_def add_child_def
      Let_def nth_append list_update_append)

lemma heap_le_refl: "heap_le h h"
  by (simp add: heap_le_def)

lemma heap_le_trans: "heap_le h1 h2 \<Longrightarrow> heap_le h2 h3 \<Longrightarrow> heap_le h1 h3"
  by (auto simp: heap_le_def)

lemma heap_le_length: "heap_le h h' \<Longrightarrow> length h \<le> length h'"
  by (simp add: heap_le_def)

lemma ancestor_heap_le:
  assumes "heap_le h h'" "wf_heap h"
  shows "a < length h \<Longrightarrow> ancestor h' k a = ancestor h k a"
proof (induction k arbitrary: a)
  case 0
  show ?case by simp
next
  case (Suc k)
  have par: "parent (h' ! a) = parent (h ! a)"
    using assms(1) Suc.prems by (simp add: heap_le_def)
  show ?case
  proof (cases "parent (h ! a)")
    case None
    with par show ?thesis by simp
  next
    case (Some p)
    then have "p < length h" using assms(2) Suc.prems by (auto simp: wf_heap_def)
    with Suc.IH Some par show ?thesis by simp
  qed
qed

lemma make_subnodes_props:
  assumes "node < length h" "wf_heap h" "make_subnodes ind node h = (subs, h')"
  shows "subs = [length h, Suc (length h), Suc (Suc (length h)), Suc (Suc (Suc (length h)))]"
    and "length h' = length h + 4"
    and "heap_le h h'"
    and "wf_heap h'"
    and "\<forall>c\<in>set subs. parent (h' ! c) = Some node"
proof -
  note eq = assms(3)[unfolded make_subnodes_eq[OF assms(1)]]
  show "subs = [length h, Suc (length h), Suc (Suc (length h)), Suc (Suc (Suc (length h)))]"
    using eq by simp
  show "length h' = length h + 4" using eq by auto
  show "heap_le h h'" using eq assms(1)
    by (auto simp: heap_le_def nth_append nth_list_update)
  show "\<forall>c\<in>set subs. parent (h' ! c) = Some node" using eq
    by (auto simp: nth_append)
  show "wf_heap h'"
    unfolding wf_heap_def
  proof (intro allI impI)
    fix a p assume a: "a < length h'" and p: "parent (h' ! a) = Some p"
    show "p < length h'"
    proof (cases "a < length h")
      case True
      then have "parent (h' ! a) = parent (h ! a)" using eq assms(1)
        by (auto simp: nth_append nth_list_update)
      with p True assms(2) have "p < length h" by (auto simp: wf_heap_def)
      then show ?thesis using eq by auto
    next
      case False
      then have "a = length h \<or> a = Suc (length h) \<or> a = Suc (Suc (length h)) \<or> a = Suc (Suc (Suc (length h)))"
        using a eq by auto
      then have "parent (h' ! a) = Some node" using eq by (auto simp: nth_append)
      with p assms(1) eq show ?thesis by auto
    qed
  qed
qed

subsection \<open>The sibling loop and the recursion\<close>

lemma grownI:
  "heap_le h h' \<Longrightarrow> wf_heap h' \<Longrightarrow>
   (\<And>l. l \<in> set new \<Longrightarrow> length h \<le> l \<and> l < length h' \<and> ancestor h' k l = Some r) \<Longrightarrow>
   sorted_wrt (<) new \<Longrightarrow> grown h k r new h'"
  by (simp add: grown_def)

lemma build_loop_spec:
  assumes step: "\<And>ind node leaves h. wf_heap h \<Longrightarrow> node < length h \<Longrightarrow>
            ancestor h j node = Some r \<Longrightarrow>
            \<exists>ind' new h'. build_multiscale_patch_index_map_rec fuel depth ind node leaves h
                   = Inr (ind', leaves @ new, h') \<and> length new = m \<and> grown h k r new h'"
  shows "wf_heap h \<Longrightarrow> \<forall>n\<in>set ns. n < length h \<and> ancestor h j n = Some r \<Longrightarrow>
         \<exists>ind' new h'. build_loop fuel depth ns ind leaves h = Inr (ind', leaves @ new, h') \<and>
            length new = length ns * m \<and> grown h k r new h'"
proof (induction ns arbitrary: ind leaves h)
  case Nil
  have "grown h k r [] h" by (simp add: grown_def heap_le_refl Nil.prems(1))
  then show ?case by simp
next
  case (Cons n ns)
  from Cons.prems have n: "n < length h" "ancestor h j n = Some r" by auto
  from step[OF Cons.prems(1) n, of ind leaves]
  obtain ind1 new1 h1 where
    r1: "build_multiscale_patch_index_map_rec fuel depth ind n leaves h = Inr (ind1, leaves @ new1, h1)"
    and l1: "length new1 = m" and g1: "grown h k r new1 h1"
    by blast
  from g1 have le1: "heap_le h h1" and wf1: "wf_heap h1" by (auto simp: grown_def)
  have rest: "\<forall>n'\<in>set ns. n' < length h1 \<and> ancestor h1 j n' = Some r"
  proof
    fix n' assume "n' \<in> set ns"
    with Cons.prems have a: "n' < length h" "ancestor h j n' = Some r" by auto
    with ancestor_heap_le[OF le1 Cons.prems(1) a(1)] heap_le_length[OF le1]
    show "n' < length h1 \<and> ancestor h1 j n' = Some r" by simp
  qed
  from Cons.IH[OF wf1 rest, of ind1 "leaves @ new1"]
  obtain ind2 new2 h2 where
    r2: "build_loop fuel depth ns ind1 (leaves @ new1) h1 = Inr (ind2, (leaves @ new1) @ new2, h2)"
    and l2: "length new2 = length ns * m" and g2: "grown h1 k r new2 h2"
    by blast
  from g2 have le2: "heap_le h1 h2" and wf2: "wf_heap h2" by (auto simp: grown_def)
  have "grown h k r (new1 @ new2) h2"
  proof (rule grownI)
    show "heap_le h h2" using le1 le2 by (rule heap_le_trans)
    show "wf_heap h2" by (rule wf2)
    show "length h \<le> l \<and> l < length h2 \<and> ancestor h2 k l = Some r" if "l \<in> set (new1 @ new2)" for l
    proof (cases "l \<in> set new1")
      case True
      with g1 have a: "length h \<le> l" "l < length h1" "ancestor h1 k l = Some r"
        by (auto simp: grown_def)
      with ancestor_heap_le[OF le2 wf1 a(2)] heap_le_length[OF le2] show ?thesis by simp
    next
      case False
      with that have "l \<in> set new2" by simp
      with g2 have "length h1 \<le> l" "l < length h2" "ancestor h2 k l = Some r"
        by (auto simp: grown_def)
      with heap_le_length[OF le1] show ?thesis by simp
    qed
    show "sorted_wrt (<) (new1 @ new2)"
      using g1 g2 by (fastforce simp: grown_def sorted_wrt_append)
  qed
  moreover have "length (new1 @ new2) = length (n # ns) * m" using l1 l2 by simp
  ultimately show ?case using r1 r2 by auto
qed

lemma build_rec_spec:
  "1 \<le> d \<Longrightarrow> d \<le> fuel \<Longrightarrow> wf_heap h \<Longrightarrow> node < length h \<Longrightarrow> ancestor h j node = Some r \<Longrightarrow>
   \<exists>ind' new h'. build_multiscale_patch_index_map_rec fuel (int d) ind node leaves h
        = Inr (ind', leaves @ new, h') \<and> length new = 4 ^ d \<and> grown h (j + d) r new h'"
proof (induction d arbitrary: fuel h node j ind leaves)
  case 0
  then show ?case by simp
next
  case (Suc d)
  from Suc.prems(2) obtain f where fuel: "fuel = Suc f" and f: "d \<le> f" by (cases fuel) auto
  obtain subs h1 where ms: "make_subnodes ind node h = (subs, h1)" by (cases "make_subnodes ind node h")
  note props = make_subnodes_props[OF Suc.prems(4) Suc.prems(3) ms]
  have subs_anc: "\<forall>c\<in>set subs. c < length h1 \<and> ancestor h1 (Suc j) c = Some r"
  proof
    fix c assume c: "c \<in> set subs"
    with props(1,2) have "c < length h1" by auto
    moreover have "ancestor h1 (Suc j) c = ancestor h1 j node" using props(5) c by simp
    moreover have "ancestor h1 j node = ancestor h j node"
      by (rule ancestor_heap_le[OF props(3) Suc.prems(3) Suc.prems(4)])
    ultimately show "c < length h1 \<and> ancestor h1 (Suc j) c = Some r" using Suc.prems(5) by simp
  qed
  have subs_new: "\<forall>c\<in>set subs. length h \<le> c" using props(1) by auto
  have subs_sorted: "sorted_wrt (<) subs" using props(1) by simp
  show ?case
  proof (cases "d = 0")
    case True
    have "grown h (j + Suc d) r subs h1"
      using props(3,4) subs_anc subs_new subs_sorted True by (auto simp: grown_def)
    moreover have "length subs = 4 ^ Suc d" using props(1) True by simp
    ultimately show ?thesis using ms fuel True by simp
  next
    case False
    then have d1: "1 \<le> d" by simp
    have step: "\<exists>ind' new h'. build_multiscale_patch_index_map_rec f (int d) ind0 node0 leaves0 h0
                   = Inr (ind', leaves0 @ new, h') \<and> length new = 4 ^ d \<and> grown h0 (Suc j + d) r new h'"
      if "wf_heap h0" "node0 < length h0" "ancestor h0 (Suc j) node0 = Some r" for ind0 node0 leaves0 h0
      using Suc.IH[OF d1 f that] .
    from build_loop_spec[where fuel = f and depth = "int d" and j = "Suc j" and r = r and m = "4 ^ d"
        and k = "Suc j + d" and h = h1 and ns = subs and ind = "ind + 4" and leaves = leaves,
        OF step props(4) subs_anc]
    obtain ind2 new h2 where
      r2: "build_loop f (int d) subs (ind + 4) leaves h1 = Inr (ind2, leaves @ new, h2)"
      and l2: "length new = length subs * 4 ^ d" and g2: "grown h1 (Suc j + d) r new h2"
      by blast
    have "grown h (j + Suc d) r new h2"
      using g2 props(3) heap_le_length[OF props(3)]
      by (auto simp: grown_def intro: heap_le_trans)
    moreover have "length new = 4 ^ Suc d" using l2 props(1) by simp
    moreover have "int (Suc d) \<noteq> 1" using False by simp
    ultimately show ?thesis using ms fuel r2 by simp
  qed
qed

subsection \<open>Depths the recursion never leaves\<close>

text \<open>
  The recursion stops only at \<open>depth = 1\<close> and counts down, so a call with
  \<open>depth \<le> 0\<close> nests until the interpreter's stack is exhausted, whatever its size.
\<close>

lemma make_subnodes_four: "\<exists>a b c d h'. make_subnodes ind node h = ([a, b, c, d], h')"
  by (simp add: make_subnodes_def upt4 new_MultiscaleTreeNode_def add_child_def Let_def)

lemma build_rec_nonpositive:
  "depth \<le> 0 \<Longrightarrow>
   build_multiscale_patch_index_map_rec fuel depth ind node leaves h = Inl RecursionError"
proof (induction fuel arbitrary: depth ind node leaves h)
  case 0
  show ?case by simp
next
  case (Suc fuel)
  obtain a b c d h1 where ms: "make_subnodes ind node h = ([a, b, c, d], h1)"
    using make_subnodes_four by blast
  have "build_multiscale_patch_index_map_rec fuel (depth - 1) (ind + 4) a leaves h1 = Inl RecursionError"
    using Suc.prems by (intro Suc.IH) simp
  then show ?case using ms Suc.prems by simp
qed

lemma build_multiscale_patch_index_map_depth1_diverges:
  "build_multiscale_patch_index_map fuel 1 = Inl RecursionError"
  by (simp add: build_multiscale_patch_index_map_def new_MultiscaleTreeNode_def
      build_rec_nonpositive)

lemma build_multiscale_patch_index_map_negative:
  "depth < 0 \<Longrightarrow> build_multiscale_patch_index_map fuel depth = Inr None"
  by (simp add: build_multiscale_patch_index_map_def)

subsection \<open>Claims C1 and C2\<close>

text \<open>
  C1, as amended. \<open>build_multiscale_patch_index_map\<close> passes \<open>depth - 1\<close> to the
  recursion, so the tree has \<open>depth - 1\<close> levels below the root: for every
  \<open>depth \<ge> 2\<close>, given a stack that allows \<open>depth - 1\<close> nested calls, the builder
  returns exactly \<open>4 ^ (depth - 1)\<close> distinct leaf nodes, and following the parent link
  from any returned leaf exactly \<open>depth - 1\<close> times reaches the root, the node that has no
  parent and carries index 0.
\<close>

theorem build_multiscale_patch_index_map_leaves:
  assumes "2 \<le> depth" and "nat (depth - 1) \<le> fuel"
  shows "\<exists>leaves h r. build_multiscale_patch_index_map fuel depth = Inr (Some (leaves, h)) \<and>
           length leaves = 4 ^ nat (depth - 1) \<and> distinct leaves \<and> is_root h r \<and>
           (\<forall>l\<in>set leaves. l < length h \<and> ancestor h (nat (depth - 1)) l = Some r)"
proof -
  define d where "d = nat (depth - 1)"
  define h0 where "h0 = [\<lparr>index = 0, parent = None, children = []\<rparr>]"
  have d: "1 \<le> d" "d \<le> fuel" "depth - 1 = int d" using assms by (auto simp: d_def)
  have wf0: "wf_heap h0" by (simp add: wf_heap_def h0_def)
  have "0 < length h0" "ancestor h0 0 0 = Some 0" by (simp_all add: h0_def)
  from build_rec_spec[OF d(1,2) wf0 this, of 1 "[]"]
  obtain ind' new h' where
    res: "build_multiscale_patch_index_map_rec fuel (int d) 1 0 [] h0 = Inr (ind', new, h')"
    and len: "length new = 4 ^ d" and g: "grown h0 (0 + d) 0 new h'"
    by auto
  have "is_root h' 0" using g by (auto simp: grown_def heap_le_def is_root_def h0_def)
  moreover have "distinct new" using g by (auto simp: grown_def strict_sorted_iff)
  moreover have "\<forall>l\<in>set new. l < length h' \<and> ancestor h' d l = Some 0"
    using g by (auto simp: grown_def)
  moreover have "build_multiscale_patch_index_map fuel depth = Inr (Some (new, h'))"
    using assms(1) res d(3) by (simp add: build_multiscale_patch_index_map_def
        new_MultiscaleTreeNode_def h0_def)
  ultimately show ?thesis using len unfolding d_def by blast
qed

theorem build_multiscale_patch_index_map_leaves_witness:
  "(2::int) \<le> 3 \<and> nat (3 - 1) \<le> (1000::nat) \<and>
   (\<exists>leaves h r. build_multiscale_patch_index_map 1000 3 = Inr (Some (leaves, h)) \<and>
           length leaves = 4 ^ nat (3 - 1) \<and> distinct leaves \<and> is_root h r \<and>
           (\<forall>l\<in>set leaves. l < length h \<and> ancestor h (nat (3 - 1)) l = Some r))"
  using build_multiscale_patch_index_map_leaves[of 3 1000] by simp

text \<open>
  The claim as written (\<open>4 ^ depth\<close> leaves) fails at \<open>depth = 2\<close>: the builder returns
  the four children of the root, not sixteen nodes.
\<close>

theorem build_multiscale_patch_index_map_depth2_counterexample:
  "build_multiscale_patch_index_map 1000 2 =
     Inr (Some ([1, 2, 3, 4],
       [\<lparr>index = 0, parent = None, children = [1, 2, 3, 4]\<rparr>,
        \<lparr>index = 1, parent = Some 0, children = []\<rparr>,
        \<lparr>index = 2, parent = Some 0, children = []\<rparr>,
        \<lparr>index = 3, parent = Some 0, children = []\<rparr>,
        \<lparr>index = 4, parent = Some 0, children = []\<rparr>])) \<and>
   length [1, 2, 3, 4 :: nat] \<noteq> 4 ^ 2"
  by code_simp

text \<open>
  C2 fails on the code at \<open>depth = 0\<close>: the guard \<open>depth < 0\<close> lets 0 through, the
  recursion is entered with \<open>depth = -1\<close> and never meets its base case, so the call
  ends in \<open>RecursionError\<close> for every stack size instead of returning a root-only result.
\<close>

theorem build_multiscale_patch_index_map_depth0_diverges:
  "build_multiscale_patch_index_map fuel 0 = Inl RecursionError"
  by (simp add: build_multiscale_patch_index_map_def new_MultiscaleTreeNode_def
      build_rec_nonpositive)
section \<open>The dataset: proofs\<close>

subsection \<open>The length of the patch pyramid\<close>

lemma pyramid_growth_closed: "3 * pyramid_growth k + 4 = 4 ^ Suc k"
  by (induction k) simp_all

lemma pyramid_growth_sum: "1 + pyramid_growth k = (\<Sum>i\<le>k. 4 ^ i)"
proof (induction k)
  case 0
  show ?case by simp
next
  case (Suc k)
  then show ?case using pyramid_growth_closed[of k] by simp
qed

lemma pyramid_growth_div: "1 + pyramid_growth k = (4 ^ Suc k - 1) div 3"
proof -
  have "4 ^ Suc k - 1 = 3 * (1 + pyramid_growth k)"
    using pyramid_growth_closed[of k] by simp
  then show ?thesis by simp
qed

lemma recursively_extract_patches_length:
  "length (recursively_extract_patches self resize input_img result_list depth) =
     length result_list + pyramid_growth (nat (num_scales self - depth))"
proof (induction self resize input_img result_list depth
    rule: recursively_extract_patches.induct)
  case (1 self resize input_img result_list depth)
  show ?case
  proof (cases "depth \<ge> num_scales self")
    case True
    then show ?thesis by simp
  next
    case False
    then obtain k where k: "nat (num_scales self - depth) = Suc k"
      and k': "nat (num_scales self - (depth + 1)) = k"
      by (cases "nat (num_scales self - depth)") auto
    note IH = "1.IH"[OF False refl refl refl]
    show ?thesis
      using False k k'
      by (subst recursively_extract_patches.simps)
        (simp add: Let_def IH del: recursively_extract_patches.simps)
  qed
qed

lemma foldl_extends:
  assumes "\<And>p rl. p \<in> set ps \<Longrightarrow> \<exists>ys. f rl p = rl @ ys"
  shows "\<exists>ys. foldl f rl ps = rl @ ys"
  using assms
proof (induction ps arbitrary: rl)
  case Nil
  show ?case by simp
next
  case (Cons p ps)
  from Cons.prems[of p rl] obtain ys where ys: "f rl p = rl @ ys" by auto
  from Cons.IH[of "rl @ ys"] Cons.prems obtain zs where "foldl f (rl @ ys) ps = (rl @ ys) @ zs"
    by auto
  with ys show ?case by simp
qed

lemma recursively_extract_patches_extends:
  "\<exists>ys. recursively_extract_patches self resize input_img result_list depth = result_list @ ys"
proof (induction self resize input_img result_list depth
    rule: recursively_extract_patches.induct)
  case (1 self resize input_img result_list depth)
  show ?case
  proof (cases "depth \<ge> num_scales self")
    case True
    then show ?thesis by simp
  next
    case False
    note IH = "1.IH"[OF False refl refl refl]
    define patch_size where "patch_size = hq_size_cap self div 2 ^ nat depth"
    define patches where "patches =
      [crop input_img (None, Some patch_size) (None, Some patch_size),
       crop input_img (None, Some patch_size) (Some patch_size, None),
       crop input_img (Some patch_size, None) (None, Some patch_size),
       crop input_img (Some patch_size, None) (Some patch_size, None)]"
    define rl1 where
      "rl1 = result_list @ map (\<lambda>p. resize p (tile_size self, tile_size self)) patches"
    have "\<exists>ys. foldl (\<lambda>rl p. recursively_extract_patches self resize p rl (depth + 1)) rl1 patches
            = rl1 @ ys"
      by (rule foldl_extends) (use IH in \<open>simp add: patches_def patch_size_def\<close>)
    then obtain ys where
      "foldl (\<lambda>rl p. recursively_extract_patches self resize p rl (depth + 1)) rl1 patches
         = rl1 @ ys" ..
    then have "recursively_extract_patches self resize input_img result_list depth = rl1 @ ys"
      using False
      by (subst recursively_extract_patches.simps)
        (simp add: Let_def patches_def patch_size_def rl1_def
          del: recursively_extract_patches.simps)
    then show ?thesis by (simp add: rl1_def)
  qed
qed

lemma patches_hq_length_growth:
  "length (patches_hq self resize img_full) = 1 + pyramid_growth (nat (num_scales self - 1))"
  by (simp add: patches_hq_def recursively_extract_patches_length
      del: recursively_extract_patches.simps)

lemma patches_hq_slot0:
  "patches_hq self resize img_full ! 0 = resize img_full (tile_size self, tile_size self)"
proof -
  obtain ys where "patches_hq self resize img_full =
      [resize img_full (tile_size self, tile_size self)] @ ys"
    unfolding patches_hq_def using recursively_extract_patches_extends by blast
  then show ?thesis by simp
qed

lemma getitem_HQ_length:
  assumes "getitem ext self normal_draw idx = Inr d"
  shows "length (HQ d) = 1 + pyramid_growth (nat (num_scales self - 1))"
    and "length (LQ d) = length (HQ d)"
  using assms
  by (auto simp: getitem_def Let_def patches_hq_length_growth
      split: sum.splits if_splits)

lemma getitem_example2:
  "getitem example_externals (example_dataset 2) 0 7 =
     Inr \<lparr>LQ = [[[1]], [[1]], [[3]], [[9]], [[11]]],
          HQ = [[[1]], [[1]], [[3]], [[9]], [[11]]], GT_path = ''b.png''\<rparr>"
  by code_simp

lemma getitem_example1:
  "getitem example_externals (example_dataset 1) 0 7 =
     Inr \<lparr>LQ = [[[1]]], HQ = [[[1]]], GT_path = ''b.png''\<rparr>"
  by code_simp

subsection \<open>Claims C3 and C4\<close>

text \<open>
  C3, as amended. The recursion starts at depth 1 and stops as soon as
  \<open>depth \<ge> num_scales\<close>, so with \<open>num_scales = 1\<close> nothing is appended to the seeded
  slot: the HQ patch pyramid built by \<open>__getitem__\<close> has length 1 when
  \<open>num_scales = 1\<close> and length 5 when \<open>num_scales = 2\<close>, for every image and every
  resize function, and so has the \<open>HQ\<close> entry of every sample \<open>__getitem__\<close> returns.
\<close>

theorem patches_hq_length_one_and_two:
  "(num_scales self = 1 \<longrightarrow>
      length (patches_hq self resize img_full) = 1 \<and>
      (case getitem ext self normal_draw idx of Inl e \<Rightarrow> True | Inr d \<Rightarrow> length (HQ d) = 1)) \<and>
   (num_scales self = 2 \<longrightarrow>
      length (patches_hq self resize img_full) = 5 \<and>
      (case getitem ext self normal_draw idx of Inl e \<Rightarrow> True | Inr d \<Rightarrow> length (HQ d) = 5))"
proof (intro conjI impI)
  assume "num_scales self = 1"
  then show "length (patches_hq self resize img_full) = 1"
    by (simp add: patches_hq_length_growth)
  show "case getitem ext self normal_draw idx of Inl e \<Rightarrow> True | Inr d \<Rightarrow> length (HQ d) = 1"
    using \<open>num_scales self = 1\<close>
    by (auto split: sum.splits dest: getitem_HQ_length(1))
next
  assume "num_scales self = 2"
  then show "length (patches_hq self resize img_full) = 5"
    by (simp add: patches_hq_length_growth)
  show "case getitem ext self normal_draw idx of Inl e \<Rightarrow> True | Inr d \<Rightarrow> length (HQ d) = 5"
    using \<open>num_scales self = 2\<close>
    by (auto split: sum.splits dest: getitem_HQ_length(1))
qed

theorem patches_hq_length_one_and_two_witness:
  "num_scales (example_dataset 1) = 1 \<and>
   length (patches_hq (example_dataset 1) resize_nearest example_image) = 1 \<and>
   length (HQ (projr (getitem example_externals (example_dataset 1) 0 7))) = 1 \<and>
   num_scales (example_dataset 2) = 2 \<and>
   length (patches_hq (example_dataset 2) resize_nearest example_image) = 5 \<and>
   length (HQ (projr (getitem example_externals (example_dataset 2) 0 7))) = 5"
  using patches_hq_length_one_and_two[of "example_dataset 1" resize_nearest example_image
      example_externals 0 7]
    patches_hq_length_one_and_two[of "example_dataset 2" resize_nearest example_image
      example_externals 0 7]
  by (simp add: example_dataset_def getitem_example1[unfolded example_dataset_def]
      getitem_example2[unfolded example_dataset_def])

text \<open>
  The claim as written (length 5 for \<open>num_scales = 1\<close>) fails: with one scale the
  pyramid of a 2 x 2 image is the seeded slot alone.
\<close>

theorem patches_hq_num_scales_1_counterexample:
  "num_scales (example_dataset 1) = 1 \<and>
   patches_hq (example_dataset 1) resize_nearest [[1, 2], [3, 4 :: nat]] = [[[1]]] \<and>
   length [[[1 :: nat]]] \<noteq> 5"
  by code_simp

text \<open>
  C4. For every \<open>num_scales \<ge> 1\<close> the HQ patch pyramid built by \<open>__getitem__\<close> has
  length \<open>1 + 4 + ... + 4 ^ (num_scales - 1) = (4 ^ num_scales - 1) / 3\<close>, its slot 0 is
  the full image resized to the tile size, and every sample \<open>__getitem__\<close> returns
  carries an \<open>HQ\<close> list (and an \<open>LQ\<close> list) of that length.
\<close>

theorem patches_hq_length:
  assumes "1 \<le> num_scales self"
  shows "length (patches_hq self resize img_full) = (\<Sum>i<nat (num_scales self). 4 ^ i) \<and>
         length (patches_hq self resize img_full) = (4 ^ nat (num_scales self) - 1) div 3 \<and>
         patches_hq self resize img_full ! 0 = resize img_full (tile_size self, tile_size self) \<and>
         (case getitem ext self normal_draw idx of
            Inl e \<Rightarrow> True
          | Inr d \<Rightarrow> length (HQ d) = (4 ^ nat (num_scales self) - 1) div 3 \<and>
                     length (LQ d) = length (HQ d))"
proof -
  obtain k where k: "nat (num_scales self - 1) = k" "nat (num_scales self) = Suc k"
    using assms by (cases "nat (num_scales self)") auto
  have len: "length (patches_hq self resize img_full) = 1 + pyramid_growth k"
    using k by (simp add: patches_hq_length_growth)
  have "{..<Suc k} = {..k}" by auto
  then have "length (patches_hq self resize img_full) = (\<Sum>i<nat (num_scales self). 4 ^ i)"
    using len pyramid_growth_sum[of k] k by simp
  moreover have "length (patches_hq self resize img_full) = (4 ^ nat (num_scales self) - 1) div 3"
    using len pyramid_growth_div[of k] k by simp
  moreover have "case getitem ext self normal_draw idx of
            Inl e \<Rightarrow> True
          | Inr d \<Rightarrow> length (HQ d) = (4 ^ nat (num_scales self) - 1) div 3 \<and>
                     length (LQ d) = length (HQ d)"
    using getitem_HQ_length[of ext self normal_draw idx] pyramid_growth_div[of k] k
    by (auto split: sum.splits)
  ultimately show ?thesis using patches_hq_slot0 by blast
qed

theorem patches_hq_length_witness:
  "1 \<le> num_scales (example_dataset 2) \<and>
   length (patches_hq (example_dataset 2) resize_nearest example_image) = 5 \<and>
   patches_hq (example_dataset 2) resize_nearest example_image ! 0 = [[1]] \<and>
   length (HQ (projr (getitem example_externals (example_dataset 2) 0 7))) = 5"
proof -
  have ns: "1 \<le> num_scales (example_dataset 2)" by (simp add: example_dataset_def)
  have r: "resize_nearest example_image (tile_size (example_dataset 2), tile_size (example_dataset 2))
      = [[1]]"
    by code_simp
  have n: "nat (num_scales (example_dataset 2)) = 2" by (simp add: example_dataset_def)
  show ?thesis
    using patches_hq_length[OF ns, of resize_nearest example_image example_externals 0 7]
      ns r n getitem_example2
    by simp
qed

subsection \<open>Claim C10: the path of a sample\<close>

lemma getitem_GT_path:
  assumes "getitem ext self normal_draw idx = Inr d"
  shows "select_path self idx = Inr (GT_path d)"
  using assms by (auto simp: getitem_def Let_def split: sum.splits if_splits)

text \<open>
  C10. For every non-negative index and every non-empty path list, \<open>__getitem__\<close>
  selects the path at position \<open>index % len(paths_hq)\<close>: the position is below
  \<open>__len__()\<close>, so the selection returns a path (it raises neither \<open>IndexError\<close> nor
  \<open>ZeroDivisionError\<close>), also for indices at or beyond \<open>__len__()\<close>, and that path is
  the \<open>GT_path\<close> of every sample \<open>__getitem__\<close> returns.
\<close>

theorem getitem_path_wraps:
  assumes "paths_hq self \<noteq> []" and "0 \<le> idx"
  shows "nat idx mod MultiScaleDataset_len self < MultiScaleDataset_len self \<and>
         select_path self idx = Inr (paths_hq self ! (nat idx mod MultiScaleDataset_len self)) \<and>
         (case getitem ext self normal_draw idx of
            Inl e \<Rightarrow> True
          | Inr d \<Rightarrow> GT_path d = paths_hq self ! (nat idx mod MultiScaleDataset_len self))"
proof -
  let ?n = "length (paths_hq self)"
  have n: "0 < ?n" using assms(1) by simp
  have m: "idx mod int ?n = int (nat idx mod ?n)"
    using assms(2) by (simp add: zmod_int)
  have lt: "nat idx mod ?n < ?n" using n by simp
  have sel: "select_path self idx = Inr (paths_hq self ! (nat idx mod ?n))"
    using n lt by (simp add: select_path_def py_mod_def py_getitem_def m)
  have "case getitem ext self normal_draw idx of
            Inl e \<Rightarrow> True
          | Inr d \<Rightarrow> GT_path d = paths_hq self ! (nat idx mod ?n)"
    using sel by (auto split: sum.splits dest: getitem_GT_path)
  with lt sel show ?thesis unfolding MultiScaleDataset_len_def by blast
qed

theorem getitem_path_wraps_witness:
  "paths_hq (example_dataset 2) \<noteq> [] \<and> (0::int) \<le> 7 \<and>
   MultiScaleDataset_len (example_dataset 2) = 3 \<and>
   select_path (example_dataset 2) 7 = Inr ''b.png'' \<and>
   GT_path (projr (getitem example_externals (example_dataset 2) 0 7)) = ''b.png''"
proof -
  have p: "paths_hq (example_dataset 2) \<noteq> []" by (simp add: example_dataset_def)
  have l: "MultiScaleDataset_len (example_dataset 2) = 3"
    by (simp add: example_dataset_def MultiScaleDataset_len_def)
  have e: "paths_hq (example_dataset 2) ! 1 = ''b.png''" by (simp add: example_dataset_def)
  show ?thesis
    using getitem_path_wraps[OF p, of 7 example_externals 0] p l e getitem_example2
    by simp
qed

subsection \<open>Claim C5: the square crop\<close>

text \<open>
  When the sides differ by at least two, the crop start lies in \<open>[0, |h - w|]\<close> for
  every draw and the crop of a rectangular image is the square of side \<open>min h w\<close>.
\<close>

lemma crop_start_bounds:
  fixes offset :: real and diff :: int
  assumes "2 \<le> diff" "- 1 \<le> offset" "offset \<le> 1"
  shows "0 \<le> py_int (of_int (diff div 2) + offset * of_int (diff div 2 - 2)) \<and>
         py_int (of_int (diff div 2) + offset * of_int (diff div 2 - 2)) \<le> diff"
proof -
  define c where "c = diff div 2"
  have c1: "1 \<le> c" and c2: "2 * c \<le> diff" using assms(1) by (auto simp: c_def)
  define x :: real where "x = of_int c + offset * of_int (c - 2)"
  have "0 \<le> x \<and> x \<le> of_int diff"
  proof (cases "c = 1")
    case True
    then have "x = 1 - offset" by (simp add: x_def)
    then show ?thesis using assms by simp
  next
    case False
    with c1 have "0 \<le> (of_int (c - 2) :: real)" by simp
    then have "\<bar>offset * of_int (c - 2)\<bar> \<le> of_int (c - 2)"
      using assms(2,3) by (simp add: abs_mult mult_left_le_one_le abs_le_iff mult_le_cancel_right1)
    then have "2 \<le> x \<and> x \<le> of_int (2 * c - 2)" by (auto simp: x_def abs_le_iff)
    moreover have "(of_int (2 * c - 2) :: real) \<le> of_int diff" using c2 by linarith
    ultimately show ?thesis by linarith
  qed
  then have "0 \<le> py_int x \<and> py_int x \<le> diff"
    by (auto simp: py_int_def floor_le_iff le_floor_iff)
  then show ?thesis by (simp add: x_def c_def)
qed

lemma py_slice_length:
  assumes "0 \<le> a" "0 \<le> n" "a + n \<le> int (length xs)"
  shows "length (py_slice xs (Some a) (Some (a + n))) = nat n"
  using assms by (auto simp: py_slice_def slice_bound_def Let_def min_def)

lemma py_slice_all: "py_slice xs None None = xs"
  by (simp add: py_slice_def)

lemma get_square_image_square:
  assumes rect: "\<forall>row\<in>set img. length row = w"
    and h: "length img = h" and "0 < h"
    and diff: "h + 2 \<le> w \<or> w + 2 \<le> h"
  shows "length (get_square_image img normal_draw) = min h w \<and>
         (\<forall>row\<in>set (get_square_image img normal_draw). length row = min h w)"
proof -
  have w: "img_width img = w" using rect h \<open>0 < h\<close> by (cases img) (auto simp: img_width_def)
  define offset where "offset = max (min normal_draw 1.0) (- 1.0 :: real)"
  have off: "- 1 \<le> offset" "offset \<le> 1" by (auto simp: offset_def)
  from diff show ?thesis
  proof
    assume lt: "h + 2 \<le> w"
    define d where "d = int w - int h"
    have d2: "2 \<le> d" using lt by (simp add: d_def)
    define left where "left = py_int (of_int (d div 2) + offset * of_int (d div 2 - 2))"
    have lb: "0 \<le> left" "left \<le> d" using crop_start_bounds[OF d2 off] by (auto simp: left_def)
    have res: "get_square_image img normal_draw =
        map (\<lambda>row. py_slice row (Some left) (Some (left + int h))) img"
      using lt h w
      by (simp add: get_square_image_def Let_def crop_def py_slice_all left_def d_def offset_def)
    have "length (py_slice row (Some left) (Some (left + int h))) = h" if "row \<in> set img" for row
      using py_slice_length[of left "int h" row] lb that rect by (simp add: d_def)
    then show ?thesis using res h lt by (simp add: min_def)
  next
    assume gt: "w + 2 \<le> h"
    define d where "d = int h - int w"
    have d2: "2 \<le> d" using gt by (simp add: d_def)
    define top where "top = py_int (of_int (d div 2) + offset * of_int (d div 2 - 2))"
    have lb: "0 \<le> top" "top \<le> d" using crop_start_bounds[OF d2 off] by (auto simp: top_def)
    have res: "get_square_image img normal_draw =
        map (\<lambda>row. row) (py_slice img (Some top) (Some (top + int w)))"
      using gt h w
      by (simp add: get_square_image_def Let_def crop_def py_slice_all top_def d_def offset_def)
    have len: "length (py_slice img (Some top) (Some (top + int w))) = w"
      using py_slice_length[of top "int w" img] lb h by (simp add: d_def)
    have "set (py_slice img (Some top) (Some (top + int w))) \<subseteq> set img"
      by (auto simp: py_slice_def Let_def dest: in_set_takeD in_set_dropD)
    then show ?thesis using res len rect gt by (auto simp: min_def)
  qed
qed

text \<open>
  C5 fails on the code when the two sides differ by one. Then \<open>center = 0\<close> and the crop
  start is \<open>int(offset * (0 - 2))\<close>, which lies outside \<open>[0, 1]\<close> for every clamped
  offset of at least 1/2 and for the offset -1. On a 3 x 2 image: the draws 1/2 and 1 give
  the starts -1 and -2 and an empty crop (no rows); the draw -1 gives the start 2 and a
  crop of a single row. None of the three results is the 2 x 2 square.
\<close>

theorem get_square_image_off_by_one_sides:
  "length [[1, 2], [3, 4], [5, 6 :: nat]] = 3 \<and> img_width [[1, 2], [3, 4], [5, 6 :: nat]] = 2 \<and>
   get_square_image [[1, 2], [3, 4], [5, 6 :: nat]] (1 / 2) = [] \<and>
   get_square_image [[1, 2], [3, 4], [5, 6 :: nat]] 1 = [] \<and>
   get_square_image [[1, 2], [3, 4], [5, 6 :: nat]] (- 1) = [[5, 6]]"
  by code_simp

section \<open>The network: proofs\<close>

subsection \<open>The skip stack on the down path\<close>

lemma spec_cond_step_chans [simp]:
  "input_block_chans (spec_cond_step cfg s) = input_block_chans s"
  by (simp add: spec_cond_step_def)

lemma res_step_chans:
  "length (input_block_chans (res_step cfg mult s)) = Suc (length (input_block_chans s))"
  by (simp add: res_step_def Let_def)

lemma res_steps_chans:
  "length (input_block_chans ((res_step cfg mult ^^ n) s)) = length (input_block_chans s) + n"
  by (induction n) (simp_all add: res_step_chans)

lemma downsample_step_chans:
  "length (input_block_chans (downsample_step cfg level s)) =
     length (input_block_chans s) + (if int level \<noteq> int (length (channel_mult cfg)) - 1 then 1 else 0)"
  by (simp add: downsample_step_def)

lemma down_level_chans:
  "length (input_block_chans (down_level cfg lv s)) = length (input_block_chans s) + pushes cfg lv"
  by (cases lv) (simp add: down_level_def pushes_def downsample_step_chans res_steps_chans)

lemma down_levels_chans:
  "length (input_block_chans (foldl (\<lambda>s lv. down_level cfg lv s) s lvs)) =
     length (input_block_chans s) + sum_list (map (pushes cfg) lvs)"
  by (induction lvs arbitrary: s) (simp_all add: down_level_chans)

lemma pushes_enumerate:
  "xs \<noteq> [] \<Longrightarrow> n + length xs = length (channel_mult cfg) \<Longrightarrow>
   sum_list (map (pushes cfg) (enumerate n xs)) + 1 = sum_list (map snd xs) + length xs"
proof (induction xs arbitrary: n)
  case Nil
  then show ?case by simp
next
  case (Cons x xs)
  obtain mult num_blocks where x: "x = (mult, num_blocks)" by (cases x)
  show ?case
  proof (cases "xs = []")
    case True
    with Cons.prems x show ?thesis by (simp add: pushes_def)
  next
    case False
    have eq: "Suc n + length xs = length (channel_mult cfg)" using Cons.prems by simp
    have pos: "0 < length xs" using False by simp
    have ne: "int n \<noteq> int (length (channel_mult cfg)) - 1"
      unfolding eq[symmetric] using pos by simp
    show ?thesis using Cons.IH[OF False eq] ne x
      by (simp add: pushes_def)
  qed
qed

subsection \<open>The skip stack on the up path\<close>

lemma up_steps_chans:
  "length is \<le> length (input_block_chans s) \<Longrightarrow>
   \<exists>s'. fold_err (up_step cfg level mult num_blocks) is s = Inr s' \<and>
        length (input_block_chans s') = length (input_block_chans s) - length is \<and>
        input_blocks s' = input_blocks s \<and> spectrogram_blocks s' = spectrogram_blocks s"
proof (induction "is" arbitrary: s)
  case Nil
  show ?case by simp
next
  case (Cons i "is")
  then have ne: "input_block_chans s \<noteq> []" by auto
  then obtain s1 where s1: "up_step cfg level mult num_blocks i s = Inr s1"
    and l1: "length (input_block_chans s1) = length (input_block_chans s) - 1"
    and k1: "input_blocks s1 = input_blocks s" "spectrogram_blocks s1 = spectrogram_blocks s"
    by (simp add: up_step_def Let_def)
  have "length is \<le> length (input_block_chans s1)" using Cons.prems l1 by simp
  from Cons.IH[OF this] s1 l1 k1 show ?case by auto
qed

lemma up_level_chans:
  "pops lv \<le> length (input_block_chans s) \<Longrightarrow>
   \<exists>s'. up_level cfg lv s = Inr s' \<and>
        length (input_block_chans s') = length (input_block_chans s) - pops lv \<and>
        input_blocks s' = input_blocks s \<and> spectrogram_blocks s' = spectrogram_blocks s"
  using up_steps_chans[of "[0..<snd (snd lv) + 1]" s cfg "fst lv" "fst (snd lv)" "snd (snd lv)"]
  by (cases lv) (simp add: up_level_def pops_def)

lemma up_levels_chans:
  "sum_list (map pops lvs) \<le> length (input_block_chans s) \<Longrightarrow>
   \<exists>s'. fold_err (up_level cfg) lvs s = Inr s' \<and>
        length (input_block_chans s') = length (input_block_chans s) - sum_list (map pops lvs) \<and>
        input_blocks s' = input_blocks s \<and> spectrogram_blocks s' = spectrogram_blocks s"
proof (induction lvs arbitrary: s)
  case Nil
  show ?case by simp
next
  case (Cons lv lvs)
  then have "pops lv \<le> length (input_block_chans s)" by simp
  from up_level_chans[OF this, of cfg] obtain s1 where s1: "up_level cfg lv s = Inr s1"
    and l1: "length (input_block_chans s1) = length (input_block_chans s) - pops lv"
    and k1: "input_blocks s1 = input_blocks s" "spectrogram_blocks s1 = spectrogram_blocks s"
    by blast
  have "sum_list (map pops lvs) \<le> length (input_block_chans s1)" using Cons.prems l1 by simp
  from Cons.IH[OF this] s1 l1 k1 show ?case by auto
qed

lemma pops_enumerate:
  "sum_list (map pops (enumerate n xs)) = sum_list (map snd xs) + length xs"
  by (induction xs arbitrary: n) (auto simp: pops_def)

lemma levels_nonempty:
  "length (channel_mult cfg) = length (num_res_blocks cfg) \<Longrightarrow> channel_mult cfg \<noteq> [] \<Longrightarrow>
   levels cfg \<noteq> []"
  by (cases "channel_mult cfg"; cases "num_res_blocks cfg") (auto simp: levels_def)

lemma skip_stack_balance:
  assumes "length (channel_mult cfg) = length (num_res_blocks cfg)" and "channel_mult cfg \<noteq> []"
  shows "length (input_block_chans (down_path cfg (initial_plan cfg))) =
           sum_list (map pops (rev (levels cfg)))"
proof -
  let ?xs = "zip (channel_mult cfg) (num_res_blocks cfg)"
  have ne: "?xs \<noteq> []" and len: "0 + length ?xs = length (channel_mult cfg)"
    using assms by (cases "channel_mult cfg"; cases "num_res_blocks cfg"; simp)+
  have "length (input_block_chans (down_path cfg (initial_plan cfg))) =
          1 + sum_list (map (pushes cfg) (enumerate 0 ?xs))"
    by (simp add: down_path_def levels_def down_levels_chans initial_plan_def)
  also have "\<dots> = sum_list (map snd ?xs) + length ?xs"
    using pushes_enumerate[OF ne len] by simp
  also have "\<dots> = sum_list (map pops (rev (levels cfg)))"
    by (simp add: levels_def pops_enumerate rev_map[symmetric] sum_list_rev del: rev_map)
  finally show ?thesis .
qed

lemma build_network_example: "build_network example_config = Inr example_network"
  by code_simp

subsection \<open>Claim C6\<close>

text \<open>
  C6. For every pair of equal-length lists \<open>channel_mult\<close> and \<open>num_res_blocks\<close> of
  length at least 1, and any attention and spectrogram-conditioning resolutions, the
  constructor's loops complete (no \<open>pop\<close> meets an empty list) and the skip-channel
  stack \<open>input_block_chans\<close> is empty after the up path: the down path pushes
  1 + sum of \<open>num_res_blocks\<close> + one per non-final level, the up path pops
  \<open>num_res_blocks[L] + 1\<close> per level.
\<close>

theorem skip_stack_empty_after_up_path:
  assumes "length (channel_mult cfg) = length (num_res_blocks cfg)" and "channel_mult cfg \<noteq> []"
  shows "\<exists>self. build_network cfg = Inr self \<and> input_block_chans self = []"
proof -
  define s2 where "s2 = (down_path cfg (initial_plan cfg))
      \<lparr>feature_size := feature_size (down_path cfg (initial_plan cfg)) + ch (down_path cfg (initial_plan cfg))\<rparr>"
  have bal: "length (input_block_chans s2) = sum_list (map pops (rev (levels cfg)))"
    using skip_stack_balance[OF assms] by (simp add: s2_def)
  then have "sum_list (map pops (rev (levels cfg))) \<le> length (input_block_chans s2)" by simp
  from up_levels_chans[OF this, of cfg] bal obtain s3 where
    s3: "up_path cfg s2 = Inr s3" and e: "input_block_chans s3 = []"
    by (auto simp: up_path_def)
  obtain lv lvs where lv: "levels cfg = lv # lvs"
    using levels_nonempty[OF assms] by (cases "levels cfg") auto
  show ?thesis
    using s3 e lv by (cases lv) (simp add: build_network_def Let_def s2_def)
qed

theorem skip_stack_empty_after_up_path_witness:
  "length (channel_mult example_config) = length (num_res_blocks example_config) \<and>
   channel_mult example_config \<noteq> [] \<and>
   build_network example_config = Inr example_network \<and>
   input_block_chans example_network = []"
  using skip_stack_empty_after_up_path[of example_config] build_network_example
  by (simp add: example_config_def example_network_def)

subsection \<open>Claims C7 and C8: \<open>forward\<close>\<close>

text \<open>
  C7. For every input of length \<open>N\<close> that passes the entry checks of \<open>forward\<close>, and
  whatever value in the requested range \<open>random.randint(0, N // 2)\<close> returns, \<open>forward\<close>
  returns the output together with the bounds \<open>(rand_start, rand_stop)\<close> it computed the
  output with; in evaluation mode \<open>rand_start = 0\<close> and \<open>rand_stop = N\<close>; in training
  mode \<open>rand_start\<close> is even, lies in \<open>[0, N/2]\<close>, and
  \<open>rand_stop - rand_start = N/2\<close> (where \<open>N // 2\<close> is exactly half of \<open>N\<close>).
\<close>

theorem forward_bounds:
  assumes "int n mod 4096 = 0"
    and "\<not> (conditioning_enabled self \<and> conditioning_input = None)"
    and "0 \<le> randint 0 (int n div 2) \<and> randint 0 (int n div 2) \<le> int n div 2"
  shows "\<exists>rand_start rand_stop.
           forward self randint run x n conditioning_input =
             Inr (run x conditioning_input rand_start rand_stop, rand_start, rand_stop) \<and>
           (if training self
            then even rand_start \<and> 0 \<le> rand_start \<and> rand_start \<le> int n div 2 \<and>
                 rand_stop - rand_start = int n div 2 \<and> 2 * (int n div 2) = int n \<and>
                 rand_stop \<le> int n
            else rand_start = 0 \<and> rand_stop = int n)"
proof (cases "training self")
  case True
  define r where "r = randint 0 (int n div 2)"
  have r: "0 \<le> r" "r \<le> int n div 2" using assms(3) by (simp_all add: r_def)
  have "(4096::int) dvd int n" using assms(1) by (simp add: dvd_eq_mod_eq_0)
  moreover have "(2::int) dvd 4096" by simp
  ultimately have "even (int n)" by (rule dvd_trans[rotated])
  then have half: "2 * (int n div 2) = int n" by simp
  have "r div 2 * 2 \<le> r" by simp
  then have rs: "even (r div 2 * 2)" "0 \<le> r div 2 * 2" "r div 2 * 2 \<le> int n div 2"
    using r by simp_all
  have "forward self randint run x n conditioning_input =
      Inr (run x conditioning_input (r div 2 * 2) (r div 2 * 2 + int n div 2),
           r div 2 * 2, r div 2 * 2 + int n div 2)"
    using assms(1,2) True by (simp add: forward_def Let_def r_def)
  moreover have "r div 2 * 2 + int n div 2 \<le> int n" using rs(3) half by linarith
  ultimately show ?thesis using True rs half by auto
next
  case False
  have "forward self randint run x n conditioning_input =
      Inr (run x conditioning_input 0 (int n), 0, int n)"
    using assms(1,2) False by (simp add: forward_def)
  then show ?thesis using False by auto
qed

theorem forward_bounds_witness:
  "int 8192 mod 4096 = 0 \<and>
   \<not> (conditioning_enabled example_network \<and> Some () = None) \<and>
   (0::int) \<le> 1001 \<and> (1001::int) \<le> int 8192 div 2 \<and>
   training example_network \<and>
   forward example_network (\<lambda>a b. 1001) (\<lambda>x c rand_start rand_stop. (x, rand_start, rand_stop))
     ''clip'' 8192 (Some ()) = Inr ((''clip'', 1000, 5096), 1000, 5096) \<and>
   \<not> training (example_network\<lparr>training := False\<rparr>) \<and>
   forward (example_network\<lparr>training := False\<rparr>) (\<lambda>a b. 1001)
     (\<lambda>x c rand_start rand_stop. (x, rand_start, rand_stop))
     ''clip'' 8192 (Some ()) = Inr ((''clip'', 0, 8192), 0, 8192)"
  using forward_bounds[of 8192 example_network "Some ()" "\<lambda>a b. 1001"
      "\<lambda>x c rand_start rand_stop. (x, rand_start, rand_stop)" "''clip''"]
    forward_bounds[of 8192 "example_network\<lparr>training := False\<rparr>" "Some ()" "\<lambda>a b. 1001"
      "\<lambda>x c rand_start rand_stop. (x, rand_start, rand_stop)" "''clip''"]
  by (simp add: example_network_def forward_def)

text \<open>
  C8. \<open>forward\<close> fails at entry, with the \<open>AssertionError\<close> of one of its two
  \<open>assert\<close> statements and before anything else is evaluated, if and only if the
  length of the input's last dimension is not divisible by 4096, or conditioning is
  enabled and no conditioning tensor is supplied; when both preconditions hold, neither
  check raises and \<open>forward\<close> goes on to compute its result.
\<close>

theorem forward_entry_checks:
  "(forward self randint run x n conditioning_input = Inl AssertionError) =
     (int n mod 4096 \<noteq> 0 \<or> (conditioning_enabled self \<and> conditioning_input = None)) \<and>
   (\<exists>res. forward self randint run x n conditioning_input = Inr res) =
     (int n mod 4096 = 0 \<and> \<not> (conditioning_enabled self \<and> conditioning_input = None))"
  by (auto simp: forward_def Let_def split: prod.splits)

theorem forward_entry_checks_witness:
  "forward example_network (\<lambda>a b. b) (\<lambda>x c rand_start rand_stop. x) ''clip'' 4097 (Some ())
     = Inl AssertionError \<and>
   forward example_network (\<lambda>a b. b) (\<lambda>x c rand_start rand_stop. x) ''clip'' 8192
     (None :: unit option) = Inl AssertionError \<and>
   forward example_network (\<lambda>a b. b) (\<lambda>x c rand_start rand_stop. x) ''clip'' 8192 (Some ())
     = Inr (''clip'', 4096, 8192) \<and>
   forward (example_network\<lparr>conditioning_enabled := False\<rparr>) (\<lambda>a b. b)
     (\<lambda>x c rand_start rand_stop. x) ''clip'' 8192 (None :: unit option)
     = Inr (''clip'', 4096, 8192)"
proof -
  let ?run = "\<lambda>(x :: string) (c :: unit option) (rand_start :: int) (rand_stop :: int). x"
  have a: "int 4097 mod 4096 \<noteq> 0" by simp
  have b: "conditioning_enabled example_network" by (simp add: example_network_def)
  have "forward example_network (\<lambda>a b. b) ?run ''clip'' 4097 (Some ()) = Inl AssertionError"
    using forward_entry_checks[of example_network "\<lambda>a b. b" ?run "''clip''" 4097 "Some ()"] a
    by blast
  moreover have "forward example_network (\<lambda>a b. b) ?run ''clip'' 8192 None = Inl AssertionError"
    using forward_entry_checks[of example_network "\<lambda>a b. b" ?run "''clip''" 8192 None] b
    by blast
  moreover have "forward example_network (\<lambda>a b. b) ?run ''clip'' 8192 (Some ())
      = Inr (''clip'', 4096, 8192)"
    by (simp add: forward_def example_network_def)
  moreover have "forward (example_network\<lparr>conditioning_enabled := False\<rparr>) (\<lambda>a b. b) ?run
      ''clip'' 8192 None = Inr (''clip'', 4096, 8192)"
    by (simp add: forward_def example_network_def)
  ultimately show ?thesis by blast
qed

subsection \<open>Which input blocks are conditioning blocks\<close>

lemma spec_positions_append_other:
  assumes "spec_positions bs sb" "\<not> is_spectrogram_block b"
  shows "spec_positions (bs @ [b]) sb"
  unfolding spec_positions_def
proof (intro conjI allI)
  show "distinct sb" using assms(1) by (simp add: spec_positions_def)
  fix i
  have old: "i \<in> set sb \<longleftrightarrow> i < length bs \<and> is_spectrogram_block (bs ! i)"
    using assms(1) by (simp add: spec_positions_def)
  show "i \<in> set sb \<longleftrightarrow> i < length (bs @ [b]) \<and> is_spectrogram_block ((bs @ [b]) ! i)"
  proof (cases "i < length bs")
    case True
    then show ?thesis using old by (simp add: nth_append)
  next
    case False
    then show ?thesis using old assms(2) by (cases "i = length bs") simp_all
  qed
qed

lemma spec_positions_append_spec:
  assumes "spec_positions bs sb" "is_spectrogram_block b"
  shows "spec_positions (bs @ [b]) (sb @ [length bs])"
  unfolding spec_positions_def
proof (intro conjI allI)
  have old: "i \<in> set sb \<longleftrightarrow> i < length bs \<and> is_spectrogram_block (bs ! i)" for i
    using assms(1) by (simp add: spec_positions_def)
  then have "length bs \<notin> set sb" by simp
  then show "distinct (sb @ [length bs])" using assms(1) by (simp add: spec_positions_def)
  fix i
  show "i \<in> set (sb @ [length bs]) \<longleftrightarrow>
          i < length (bs @ [b]) \<and> is_spectrogram_block ((bs @ [b]) ! i)"
  proof (cases "i < length bs")
    case True
    then show ?thesis using old[of i] by (simp add: nth_append)
  next
    case False
    then show ?thesis using old[of i] assms(2) by (cases "i = length bs") simp_all
  qed
qed

lemma spec_inv_initial: "spec_inv (initial_plan cfg)"
  by (auto simp: spec_inv_def initial_plan_def spec_positions_def)

lemma spec_inv_spec_cond_step: "spec_inv s \<Longrightarrow> spec_inv (spec_cond_step cfg s)"
  by (simp add: spec_cond_step_def spec_inv_def spec_positions_append_spec)

lemma spec_inv_res_step: "spec_inv s \<Longrightarrow> spec_inv (res_step cfg mult s)"
  by (simp add: res_step_def Let_def spec_inv_def spec_positions_append_other)

lemma spec_inv_res_steps: "spec_inv s \<Longrightarrow> spec_inv ((res_step cfg mult ^^ n) s)"
  by (induction n) (simp_all add: spec_inv_res_step)

lemma spec_inv_downsample_step: "spec_inv s \<Longrightarrow> spec_inv (downsample_step cfg level s)"
  by (simp add: downsample_step_def spec_inv_def spec_positions_append_other)

lemma spec_inv_down_level: "spec_inv s \<Longrightarrow> spec_inv (down_level cfg lv s)"
  by (cases lv)
    (simp add: down_level_def spec_inv_downsample_step spec_inv_res_steps spec_inv_spec_cond_step)

lemma spec_inv_down_levels:
  "spec_inv s \<Longrightarrow> spec_inv (foldl (\<lambda>s lv. down_level cfg lv s) s lvs)"
  by (induction lvs arbitrary: s) (simp_all add: spec_inv_down_level)

lemma fold_err_preserves:
  assumes "\<And>x s s'. f x s = Inr s' \<Longrightarrow> g s' = g s"
  shows "fold_err f xs s = Inr s' \<Longrightarrow> g s' = g s"
proof (induction xs arbitrary: s)
  case Nil
  then show ?case by simp
next
  case (Cons x xs)
  then obtain s1 where s1: "f x s = Inr s1" and rest: "fold_err f xs s1 = Inr s'"
    by (auto split: sum.splits)
  from Cons.IH[OF rest] assms[OF s1] show ?case by simp
qed

lemma up_step_keeps:
  "up_step cfg level mult num_blocks i s = Inr s' \<Longrightarrow>
   (input_blocks s', spectrogram_blocks s') = (input_blocks s, spectrogram_blocks s)"
  by (auto simp: up_step_def Let_def split: if_splits)

lemma up_level_keeps:
  assumes "up_level cfg lv s = Inr s'"
  shows "(input_blocks s', spectrogram_blocks s') = (input_blocks s, spectrogram_blocks s)"
proof -
  obtain level mult num_blocks where lv: "lv = (level, mult, num_blocks)" by (cases lv)
  have "fold_err (up_step cfg level mult num_blocks) [0..<num_blocks + 1] s = Inr s'"
    using assms by (simp add: up_level_def lv del: upt_Suc)
  then show ?thesis
    by (rule fold_err_preserves[where g = "\<lambda>s. (input_blocks s, spectrogram_blocks s)", rotated])
      (rule up_step_keeps)
qed

lemma up_path_keeps:
  assumes "up_path cfg s = Inr s'"
  shows "(input_blocks s', spectrogram_blocks s') = (input_blocks s, spectrogram_blocks s)"
  using assms unfolding up_path_def
  by (rule fold_err_preserves[where g = "\<lambda>s. (input_blocks s, spectrogram_blocks s)", rotated])
    (rule up_level_keeps)

lemma build_network_spec_positions:
  assumes "build_network cfg = Inr self"
  shows "spec_positions (input_blocks self) (spectrogram_blocks self)"
proof -
  define s1 where "s1 = down_path cfg (initial_plan cfg)"
  have inv1: "spec_inv s1"
    by (simp add: s1_def down_path_def spec_inv_down_levels spec_inv_initial)
  from assms obtain s3 where
    up: "up_path cfg (s1\<lparr>feature_size := feature_size s1 + ch s1\<rparr>) = Inr s3"
    and self: "input_blocks self = input_blocks s3" "spectrogram_blocks self = spectrogram_blocks s3"
    by (auto simp: build_network_def Let_def s1_def split: sum.splits list.splits)
  from up_path_keeps[OF up] self have
    "input_blocks self = input_blocks s1" "spectrogram_blocks self = spectrogram_blocks s1"
    by simp_all
  with inv1 show ?thesis by (simp add: spec_inv_def)
qed

subsection \<open>Freezing and unfreezing parameters\<close>

lemma fold_freeze_param:
  "fold freeze_param ps st p =
     (if p \<in> set ps then (st p)\<lparr>DO_NOT_TRAIN := Some True, requires_grad := False\<rparr> else st p)"
  by (induction ps arbitrary: st) (auto simp: freeze_param_def)


lemma fold_err_append:
  "fold_err f (xs @ ys) s =
     (case fold_err f xs s of Inl e \<Rightarrow> Inl e | Inr s' \<Rightarrow> fold_err f ys s')"
  by (induction xs arbitrary: s) (auto split: sum.splits)

lemma fold_err_concat_map:
  "fold_err (\<lambda>x. fold_err f (g x)) xs s = fold_err f (concat (map g xs)) s"
  by (induction xs arbitrary: s) (auto simp: fold_err_append split: sum.splits)

lemma fold_err_unfreeze:
  "distinct us \<Longrightarrow> \<forall>q\<in>set us. DO_NOT_TRAIN (st q) \<noteq> None \<Longrightarrow>
   \<exists>st'. fold_err unfreeze_param us st = Inr st' \<and>
     (\<forall>p. st' p = (if p \<in> set us then (st p)\<lparr>DO_NOT_TRAIN := None, requires_grad := True\<rparr>
                   else st p))"
proof (induction us arbitrary: st)
  case Nil
  show ?case by simp
next
  case (Cons u us)
  define st1 where "st1 = st(u := (st u)\<lparr>DO_NOT_TRAIN := None, requires_grad := True\<rparr>)"
  have u: "unfreeze_param u st = Inr st1"
    using Cons.prems(2) by (auto simp: unfreeze_param_def st1_def)
  have "\<forall>q\<in>set us. DO_NOT_TRAIN (st1 q) \<noteq> None"
    using Cons.prems by (auto simp: st1_def)
  with Cons.IH[of st1] Cons.prems(1) obtain st' where
    r: "fold_err unfreeze_param us st1 = Inr st'"
    and v: "\<forall>p. st' p = (if p \<in> set us then (st1 p)\<lparr>DO_NOT_TRAIN := None, requires_grad := True\<rparr>
                   else st1 p)"
    by auto
  have "\<forall>p. st' p = (if p \<in> set (u # us)
                     then (st p)\<lparr>DO_NOT_TRAIN := None, requires_grad := True\<rparr> else st p)"
    using v Cons.prems(1) by (auto simp: st1_def)
  with u r show ?case by simp
qed


lemma module_parameters_set:
  "p \<in> set (module_parameters n_params m) \<longleftrightarrow> fst p = m \<and> snd p < n_params m"
  by (cases p) (auto simp: module_parameters_def)


lemma parameters_set:
  "p \<in> set (parameters n_params self) \<longleftrightarrow> fst p \<in> set (modules self) \<and> snd p < n_params (fst p)"
  by (auto simp: parameters_def module_parameters_set)


lemma input_block_module: "InputBlocks i \<in> set (modules self) \<longleftrightarrow> i < length (input_blocks self)"
  by (auto simp: modules_def)


lemma distinct_module_parameters: "distinct (module_parameters n_params m)"
  by (simp add: module_parameters_def distinct_map inj_on_def)


lemma distinct_spec_params:
  assumes "distinct sb"
  shows "distinct (concat (map (\<lambda>i. module_parameters n_params (InputBlocks i)) sb))"
  using assms
  by (induction sb) (auto simp: distinct_module_parameters module_parameters_set)


lemma spec_params_set:
  "p \<in> set (concat (map (\<lambda>i. module_parameters n_params (InputBlocks i)) sb)) \<longleftrightarrow>
     (\<exists>i\<in>set sb. fst p = InputBlocks i) \<and> snd p < n_params (fst p)"
  by (auto simp: module_parameters_set)


lemma param_attrs_both:
  "(r :: param_attrs)\<lparr>DO_NOT_TRAIN := a, requires_grad := b\<rparr> =
     \<lparr>requires_grad = b, DO_NOT_TRAIN = a\<rparr>"
  by (cases r) simp

lemma is_dvae_connection_param_iff:
  "is_dvae_connection_param self p \<longleftrightarrow>
     (\<exists>i. fst p = InputBlocks i \<and> i < length (input_blocks self) \<and>
          is_spectrogram_block (input_blocks self ! i))"
  by (cases "fst p") (simp_all add: is_dvae_connection_param_def)

lemma spec_params_are_dvae_connection_params:
  assumes sp: "spec_positions (input_blocks self) (spectrogram_blocks self)"
  shows "p \<in> set (concat (map (\<lambda>i. module_parameters n_params (InputBlocks i))
                     (spectrogram_blocks self))) \<longleftrightarrow>
         p \<in> set (parameters n_params self) \<and> is_dvae_connection_param self p"
    (is "?L \<longleftrightarrow> ?R")
proof
  have pos: "i \<in> set (spectrogram_blocks self) \<longleftrightarrow>
        i < length (input_blocks self) \<and> is_spectrogram_block (input_blocks self ! i)" for i
    using sp by (simp add: spec_positions_def)
  {
    assume ?L
    then obtain i where i: "i \<in> set (spectrogram_blocks self)" "fst p = InputBlocks i"
      and k: "snd p < n_params (fst p)"
      unfolding spec_params_set by blast
    from i(1) pos have b: "i < length (input_blocks self)"
      "is_spectrogram_block (input_blocks self ! i)" by simp_all
    have "fst p \<in> set (modules self)" using i(2) b(1) by (simp add: input_block_module)
    then have "p \<in> set (parameters n_params self)" using k by (simp add: parameters_set)
    moreover have "is_dvae_connection_param self p"
      unfolding is_dvae_connection_param_iff using i(2) b by blast
    ultimately show ?R by simp
  }
  {
    assume r: ?R
    then obtain i where i: "fst p = InputBlocks i" "i < length (input_blocks self)"
      "is_spectrogram_block (input_blocks self ! i)"
      unfolding is_dvae_connection_param_iff by blast
    from r have k: "snd p < n_params (fst p)" by (simp add: parameters_set)
    have "i \<in> set (spectrogram_blocks self)" using pos i(2,3) by simp
    then show ?L unfolding spec_params_set using i(1) k by blast
  }
qed

lemma train_only_dvae_connection_layers_result:
  assumes sp: "spec_positions (input_blocks self) (spectrogram_blocks self)"
  shows "\<exists>st'. train_only_dvae_connection_layers n_params self st = Inr st' \<and>
     (\<forall>p. st' p =
        (if p \<in> set (parameters n_params self) then
           (if is_dvae_connection_param self p
            then \<lparr>requires_grad = True, DO_NOT_TRAIN = None\<rparr>
            else \<lparr>requires_grad = False, DO_NOT_TRAIN = Some True\<rparr>)
         else st p))"
proof -
  define us where
    "us = concat (map (\<lambda>i. module_parameters n_params (InputBlocks i)) (spectrogram_blocks self))"
  define st1 where "st1 = fold freeze_param (parameters n_params self) st"
  have st1: "st1 p = (if p \<in> set (parameters n_params self)
                      then \<lparr>requires_grad = False, DO_NOT_TRAIN = Some True\<rparr> else st p)" for p
    unfolding st1_def fold_freeze_param param_attrs_both ..
  have d: "distinct us" using sp by (simp add: us_def distinct_spec_params spec_positions_def)
  have mem: "p \<in> set us \<longleftrightarrow> p \<in> set (parameters n_params self) \<and> is_dvae_connection_param self p"
    for p
    unfolding us_def by (rule spec_params_are_dvae_connection_params[OF sp])
  have "\<forall>q\<in>set us. DO_NOT_TRAIN (st1 q) \<noteq> None"
  proof
    fix q assume "q \<in> set us"
    then have "q \<in> set (parameters n_params self)" using mem by blast
    then show "DO_NOT_TRAIN (st1 q) \<noteq> None" by (simp add: st1)
  qed
  from fold_err_unfreeze[OF d this] obtain st' where
    r: "fold_err unfreeze_param us st1 = Inr st'"
    and v: "\<And>p. st' p = (if p \<in> set us
                then (st1 p)\<lparr>DO_NOT_TRAIN := None, requires_grad := True\<rparr> else st1 p)"
    by blast
  have "train_only_dvae_connection_layers n_params self st = Inr st'"
    using r by (simp add: train_only_dvae_connection_layers_def fold_err_concat_map us_def st1_def)
  moreover have "st' p =
        (if p \<in> set (parameters n_params self) then
           (if is_dvae_connection_param self p
            then \<lparr>requires_grad = True, DO_NOT_TRAIN = None\<rparr>
            else \<lparr>requires_grad = False, DO_NOT_TRAIN = Some True\<rparr>)
         else st p)" for p
  proof (cases "p \<in> set us")
    case True
    then have "st' p = \<lparr>requires_grad = True, DO_NOT_TRAIN = None\<rparr>"
      using v[of p] by (simp add: param_attrs_both)
    then show ?thesis using True mem[of p] by simp
  next
    case False
    then have "st' p = st1 p" using v[of p] by simp
    then show ?thesis using False mem[of p] st1[of p] by auto
  qed
  ultimately show ?thesis by blast
qed

subsection \<open>The flag is read nowhere else\<close>

lemma build_network_ignores_flag:
  "build_network (cfg\<lparr>only_train_dvae_connection_layers := b\<rparr>) = build_network cfg"
proof -
  let ?c = "cfg\<lparr>only_train_dvae_connection_layers := b\<rparr>"
  have a: "spec_cond_step ?c = spec_cond_step cfg" "res_step ?c = res_step cfg"
    "downsample_step ?c = downsample_step cfg" "levels ?c = levels cfg"
    "initial_plan ?c = initial_plan cfg" "middle_block_of ?c = middle_block_of cfg"
    "up_step ?c = up_step cfg"
    by (auto simp: fun_eq_iff spec_cond_step_def res_step_def downsample_step_def levels_def
        initial_plan_def middle_block_of_def up_step_def heads_upsample_def Let_def)
  have b: "down_level ?c = down_level cfg" "up_level ?c = up_level cfg"
    by (auto simp: fun_eq_iff down_level_def up_level_def a)
  have c: "down_path ?c = down_path cfg" "up_path ?c = up_path cfg"
    by (auto simp: fun_eq_iff down_path_def up_path_def a b)
  show ?thesis
    by (simp add: build_network_def a c Let_def split: sum.splits list.splits)
qed

subsection \<open>Claim C9\<close>

text \<open>
  C9. When the model is constructed with \<open>only_train_dvae_connection_layers = True\<close>,
  the constructor completes (no \<open>del\<close> meets a missing attribute) and afterwards every
  parameter of the network has \<open>requires_grad = False\<close> and carries the
  \<open>DO_NOT_TRAIN\<close> marker, except the parameters of the
  \<open>DiscreteSpectrogramConditioningBlock\<close> instances inserted into the down path, which
  have \<open>requires_grad = True\<close> and no marker. Nothing else depends on the flag: every
  other parameter attribute is as before, and without the flag the constructor builds the
  same network and leaves the parameter attributes as the layers' constructors set them.
\<close>

theorem only_train_dvae_connection_layers_effect:
  assumes "build_network cfg = Inr self" and "only_train_dvae_connection_layers cfg"
  shows "\<exists>st'. DiffusionVocoderWithRefTruncatedTop_init cfg n_params st = Inr (self, st') \<and>
          (\<forall>p\<in>set (parameters n_params self).
              if is_dvae_connection_param self p
              then requires_grad (st' p) \<and> DO_NOT_TRAIN (st' p) = None
              else \<not> requires_grad (st' p) \<and> DO_NOT_TRAIN (st' p) = Some True) \<and>
          (\<forall>p. p \<notin> set (parameters n_params self) \<longrightarrow> st' p = st p) \<and>
          DiffusionVocoderWithRefTruncatedTop_init
            (cfg\<lparr>only_train_dvae_connection_layers := False\<rparr>) n_params st = Inr (self, st)"
proof -
  from train_only_dvae_connection_layers_result[OF build_network_spec_positions[OF assms(1)],
      of n_params st]
  obtain st' where
    r: "train_only_dvae_connection_layers n_params self st = Inr st'"
    and v: "\<And>p. st' p =
        (if p \<in> set (parameters n_params self) then
           (if is_dvae_connection_param self p
            then \<lparr>requires_grad = True, DO_NOT_TRAIN = None\<rparr>
            else \<lparr>requires_grad = False, DO_NOT_TRAIN = Some True\<rparr>)
         else st p)"
    by blast
  have "DiffusionVocoderWithRefTruncatedTop_init cfg n_params st = Inr (self, st')"
    using assms r by (simp add: DiffusionVocoderWithRefTruncatedTop_init_def)
  moreover have "DiffusionVocoderWithRefTruncatedTop_init
            (cfg\<lparr>only_train_dvae_connection_layers := False\<rparr>) n_params st = Inr (self, st)"
    using assms(1)
    by (simp add: DiffusionVocoderWithRefTruncatedTop_init_def build_network_ignores_flag)
  ultimately show ?thesis using v by auto
qed

theorem only_train_dvae_connection_layers_effect_witness:
  "build_network example_config = Inr example_network \<and>
   only_train_dvae_connection_layers example_config \<and>
   (InputBlocks 3, 0) \<in> set (parameters two_params example_network) \<and>
   is_dvae_connection_param example_network (InputBlocks 3, 0) \<and>
   requires_grad (snd (projr (DiffusionVocoderWithRefTruncatedTop_init
       example_config two_params fresh_params)) (InputBlocks 3, 0)) \<and>
   DO_NOT_TRAIN (snd (projr (DiffusionVocoderWithRefTruncatedTop_init
       example_config two_params fresh_params)) (InputBlocks 3, 0)) = None \<and>
   (MiddleBlock, 1) \<in> set (parameters two_params example_network) \<and>
   \<not> is_dvae_connection_param example_network (MiddleBlock, 1) \<and>
   \<not> requires_grad (snd (projr (DiffusionVocoderWithRefTruncatedTop_init
       example_config two_params fresh_params)) (MiddleBlock, 1)) \<and>
   DO_NOT_TRAIN (snd (projr (DiffusionVocoderWithRefTruncatedTop_init
       example_config two_params fresh_params)) (MiddleBlock, 1)) = Some True"
proof -
  have flag: "only_train_dvae_connection_layers example_config"
    by (simp add: example_config_def)
  have m1: "(InputBlocks 3, 0) \<in> set (parameters two_params example_network)"
    and m2: "(MiddleBlock, 1) \<in> set (parameters two_params example_network)"
    by (simp_all add: parameters_set modules_def example_network_def two_params_def)
  have d1: "is_dvae_connection_param example_network (InputBlocks 3, 0)"
    and d2: "\<not> is_dvae_connection_param example_network (MiddleBlock, 1)"
    by (simp_all add: is_dvae_connection_param_def example_network_def)
  from only_train_dvae_connection_layers_effect[OF build_network_example flag,
      of two_params fresh_params]
  obtain st' where
    i: "DiffusionVocoderWithRefTruncatedTop_init example_config two_params fresh_params
          = Inr (example_network, st')"
    and v: "\<forall>p\<in>set (parameters two_params example_network).
              if is_dvae_connection_param example_network p
              then requires_grad (st' p) \<and> DO_NOT_TRAIN (st' p) = None
              else \<not> requires_grad (st' p) \<and> DO_NOT_TRAIN (st' p) = Some True"
    by blast
  from v m1 d1 have "requires_grad (st' (InputBlocks 3, 0)) \<and>
      DO_NOT_TRAIN (st' (InputBlocks 3, 0)) = None"
    by (auto dest!: bspec)
  moreover from v m2 d2 have "\<not> requires_grad (st' (MiddleBlock, 1)) \<and>
      DO_NOT_TRAIN (st' (MiddleBlock, 1)) = Some True"
    by (auto dest!: bspec)
  ultimately show ?thesis using build_network_example flag m1 m2 d1 d2 i by simp
qed


end
